theory Spec2Isabelle
  imports Main "HOL-Library.Char_ord" "HOL-Library.List_Lexorder" "HOL-Library.AList"
    "HOL-Library.Sublist"
begin

section \<open>Containers of the standard library\<close>

text \<open>
  A \<open>std::map<std::string, V>\<close> built from an initializer list is modelled by the list of
  its key-value pairs; iterating over it visits the pairs in ascending key order
  (byte-wise lexicographic order on \<open>std::string\<close>).  A \<open>std::set<std::string>\<close> is
  modelled by the list of its elements.
\<close>

definition std_map_items :: "(string \<times> 'v) list \<Rightarrow> (string \<times> 'v) list" where
  "std_map_items m = sort_key fst m"

section \<open>Strings and \<open>std::filesystem::path\<close>\<close>

text \<open>
  \<open>::tolower\<close> in the "C" locale: the upper-case ASCII letters are mapped to their
  lower-case counterparts, every other byte is returned unchanged.
\<close>

definition tolower :: "char \<Rightarrow> char" where
  "tolower c =
     (case map_of (zip ''ABCDEFGHIJKLMNOPQRSTUVWXYZ'' ''abcdefghijklmnopqrstuvwxyz'') c of
        Some l \<Rightarrow> l
      | None \<Rightarrow> c)"

text \<open>\<open>std::transform(s.begin(), s.end(), s.begin(), ::tolower)\<close>\<close>

definition lowercase :: "string \<Rightarrow> string" where
  "lowercase s = map tolower s"

text \<open>
  Paths are kept as the strings the program passes around, in the generic (POSIX) format:
  the only directory separator is \<open>/\<close> and there is no root name.  The functions below
  are the decomposition and composition members of \<open>std::filesystem::path\<close> that the
  program calls.
\<close>

definition is_sep :: "char \<Rightarrow> bool" where
  "is_sep c = (c = CHR ''/'')"

text \<open>\<open>path::filename()\<close>: what follows the last separator (empty after a trailing one).\<close>

definition filename :: "string \<Rightarrow> string" where
  "filename p = rev (takeWhile (\<lambda>c. \<not> is_sep c) (rev p))"

text \<open>
  \<open>path::parent_path()\<close>: a path without a relative part is its own parent; otherwise the
  final component and the separators before it are cut off, a root directory being kept.
\<close>

definition parent_path :: "string \<Rightarrow> string" where
  "parent_path p =
     (if \<forall>c \<in> set p. is_sep c then p
      else let q = rev (dropWhile (\<lambda>c. \<not> is_sep c) (rev p));
               r = rev (dropWhile is_sep (rev q))
           in if r = [] \<and> q \<noteq> [] then ''/'' else r)"

text \<open>
  \<open>operator/\<close>: an absolute right operand replaces the left one; otherwise a separator is
  inserted when the left operand has a filename.
\<close>

definition append_path :: "string \<Rightarrow> string \<Rightarrow> string" where
  "append_path p q =
     (if q \<noteq> [] \<and> is_sep (hd q) then q
      else if filename p \<noteq> [] then p @ ''/'' @ q
      else p @ q)"

text \<open>
  The position of the extension inside a filename: none for an empty name, for \<open>.\<close>,
  \<open>..\<close> and two-character names starting with a dot, for names without a dot and for
  names whose only dot is the first character; otherwise the index of the last dot.
\<close>

definition find_extension :: "string \<Rightarrow> nat option" where
  "find_extension f =
     (if f = [] then None
      else if length f \<le> 2 \<and> hd f = CHR ''.'' then None
      else if CHR ''.'' \<notin> set f then None
      else let pos = length f - Suc (length (takeWhile (\<lambda>c. c \<noteq> CHR ''.'') (rev f)))
           in if pos = 0 then None else Some pos)"

text \<open>\<open>path::extension()\<close> and \<open>path::stem()\<close>, both taken from the filename.\<close>

definition extension :: "string \<Rightarrow> string" where
  "extension p =
     (case find_extension (filename p) of None \<Rightarrow> [] | Some pos \<Rightarrow> drop pos (filename p))"

definition stem :: "string \<Rightarrow> string" where
  "stem p =
     (case find_extension (filename p) of None \<Rightarrow> filename p
      | Some pos \<Rightarrow> take pos (filename p))"

text \<open>
  The components of a path: the maximal separator-free pieces, empty pieces dropped, so
  that repeated and trailing separators do not matter when a path is looked up.
\<close>

fun split_seps :: "string \<Rightarrow> string list" where
  "split_seps [] = [[]]"
| "split_seps (c # cs) =
     (if is_sep c then [] # split_seps cs
      else (case split_seps cs of [] \<Rightarrow> [[c]] | w # ws \<Rightarrow> (c # w) # ws))"

definition components :: "string \<Rightarrow> string list" where
  "components p = filter (\<lambda>w. w \<noteq> []) (split_seps p)"

text \<open>\<open>std::to_string(int)\<close>: the decimal representation.\<close>

fun decimal :: "nat \<Rightarrow> string" where
  "decimal n =
     (if n < 10 then [''0123456789'' ! n]
      else decimal (n div 10) @ [''0123456789'' ! (n mod 10)])"

declare decimal.simps [simp del]

definition to_string :: "int \<Rightarrow> string" where
  "to_string i = (if i < 0 then CHR ''-'' # decimal (nat (- i)) else decimal (nat i))"

definition INT_MAX :: int where
  "INT_MAX = 2147483647"

section \<open>The file system\<close>

text \<open>
  The file system is a finite tree.  A regular file holds its bytes.  A directory holds
  its entries in the order in which an enumeration reports them, and the error, if any,
  with which an attempt to open it for enumeration fails.  Paths are resolved from the
  root of the tree, component by component; dot and dot-dot are not interpreted.  The
  empty path names nothing, and neither does a regular file followed by a separator.
\<close>

type_synonym content = string

datatype errc =
  EACCES | EXDEV | ENOENT | ENOTDIR | EISDIR | EEXIST | ENOTEMPTY | EINVAL | EIO | ENAMETOOLONG | ELOOP

datatype node = File content | Dir "errc option" "(string \<times> node) list"

fun lookup :: "node \<Rightarrow> string list \<Rightarrow> node option" where
  "lookup n [] = Some n"
| "lookup (File x) (c # cs) = None"
| "lookup (Dir a kids) (c # cs) =
     (case map_of kids c of None \<Rightarrow> None | Some k \<Rightarrow> lookup k cs)"

text \<open>
  \<open>put cs new t\<close> stores \<open>new\<close> at path \<open>cs\<close>, replacing what is there or adding an
  entry at the end of the parent directory; nothing happens when the parent is missing.
  \<open>del cs t\<close> removes the entry at \<open>cs\<close>.
\<close>

fun put :: "string list \<Rightarrow> node \<Rightarrow> node \<Rightarrow> node" where
  "put [] new t = new"
| "put (c # cs) new (File x) = File x"
| "put (c # cs) new (Dir a kids) =
     (if cs = [] then Dir a (AList.update c new kids)
      else (case map_of kids c of
              None \<Rightarrow> Dir a kids
            | Some k \<Rightarrow> Dir a (AList.update c (put cs new k) kids)))"

fun del :: "string list \<Rightarrow> node \<Rightarrow> node" where
  "del [] t = t"
| "del (c # cs) (File x) = File x"
| "del (c # cs) (Dir a kids) =
     (if cs = [] then Dir a (AList.delete c kids)
      else (case map_of kids c of
              None \<Rightarrow> Dir a kids
            | Some k \<Rightarrow> Dir a (AList.update c (del cs k) kids)))"

text \<open>
  A call of the library can fail for reasons outside the tree (permissions, devices,
  quotas, limits on names, symbolic links); \<open>faults\<close> says which call fails with which
  error.  \<open>Op_status p\<close> stands for the status query behind \<open>exists(p)\<close>,
  \<open>is_directory(p)\<close> and \<open>is_regular_file(p)\<close>.
\<close>

datatype fs_op =
    Op_status string
  | Op_rename string string
  | Op_create_directory string
  | Op_copy_file string string
  | Op_remove string

record filesystem =
  tree :: node
  faults :: "fs_op \<Rightarrow> errc option"

definition resolve :: "filesystem \<Rightarrow> string \<Rightarrow> node option" where
  "resolve fs p =
     (if p = [] then None
      else (case lookup (tree fs) (components p) of
              Some (File x) \<Rightarrow> if is_sep (last p) then None else Some (File x)
            | r \<Rightarrow> r))"

text \<open>
  \<open>std::filesystem::status(p)\<close>, the throwing overload: a path that names nothing is
  not an error; any other failure of the query is thrown as a \<open>filesystem_error\<close>.
\<close>

definition fs_status :: "filesystem \<Rightarrow> string \<Rightarrow> errc + node option" where
  "fs_status fs p =
     (case faults fs (Op_status p) of Some e \<Rightarrow> Inl e | None \<Rightarrow> Inr (resolve fs p))"

text \<open>\<open>std::filesystem::exists\<close>, \<open>is_directory\<close>, \<open>is_regular_file\<close> (throwing overloads)\<close>

definition fs_exists :: "filesystem \<Rightarrow> string \<Rightarrow> errc + bool" where
  "fs_exists fs p =
     (case fs_status fs p of Inl e \<Rightarrow> Inl e | Inr r \<Rightarrow> Inr (r \<noteq> None))"

definition fs_is_directory :: "filesystem \<Rightarrow> string \<Rightarrow> errc + bool" where
  "fs_is_directory fs p =
     (case fs_status fs p of
        Inl e \<Rightarrow> Inl e
      | Inr r \<Rightarrow> Inr (case r of Some (Dir a kids) \<Rightarrow> True | _ \<Rightarrow> False))"

definition fs_is_regular_file :: "filesystem \<Rightarrow> string \<Rightarrow> errc + bool" where
  "fs_is_regular_file fs p =
     (case fs_status fs p of
        Inl e \<Rightarrow> Inl e
      | Inr r \<Rightarrow> Inr (case r of Some (File x) \<Rightarrow> True | _ \<Rightarrow> False))"

text \<open>
  \<open>directory_entry::is_directory()\<close>: the kind of file the enumeration has recorded for
  the entry; no further query is made.
\<close>

definition entry_is_directory :: "filesystem \<Rightarrow> string \<Rightarrow> bool" where
  "entry_is_directory fs p = (case resolve fs p of Some (Dir a kids) \<Rightarrow> True | _ \<Rightarrow> False)"

text \<open>
  \<open>std::filesystem::directory_iterator(p)\<close>: throws when \<open>p\<close> is not a directory that can
  be opened, and otherwise yields the paths \<open>p / name\<close> of the entries.
\<close>

definition directory_iterator :: "filesystem \<Rightarrow> string \<Rightarrow> errc + string list" where
  "directory_iterator fs p =
     (case resolve fs p of
        None \<Rightarrow> Inl ENOENT
      | Some (File x) \<Rightarrow> Inl ENOTDIR
      | Some (Dir (Some e) kids) \<Rightarrow> Inl e
      | Some (Dir None kids) \<Rightarrow> Inr (map (\<lambda>entry. append_path p (fst entry)) kids))"

text \<open>
  \<open>std::filesystem::rename(old_p, new_p)\<close> with the POSIX rules: an empty path, a
  missing source, a regular file named with a trailing separator (as source or as
  destination), a missing destination directory, a directory moved below itself, a
  directory onto a file, a file onto a directory and a directory onto a non-empty
  directory are errors; a file replaces an existing file and a directory replaces an
  existing empty directory.
\<close>

definition fs_rename :: "filesystem \<Rightarrow> string \<Rightarrow> string \<Rightarrow> errc + filesystem" where
  "fs_rename fs old_p new_p =
     (case faults fs (Op_rename old_p new_p) of
        Some e \<Rightarrow> Inl e
      | None \<Rightarrow>
          let old = components old_p; new = components new_p in
          if old_p = [] \<or> new_p = [] then Inl ENOENT
          else
          (case lookup (tree fs) old of
             None \<Rightarrow> Inl ENOENT
           | Some src \<Rightarrow>
               if (case src of File x \<Rightarrow> is_sep (last old_p) \<or> is_sep (last new_p)
                   | Dir b ks \<Rightarrow> False)
               then Inl ENOTDIR
               else if old = new then Inr fs
               else if prefix old new then Inl EINVAL
               else (case lookup (tree fs) (butlast new) of
                       None \<Rightarrow> Inl ENOENT
                     | Some (File x) \<Rightarrow> Inl ENOTDIR
                     | Some (Dir a kids) \<Rightarrow>
                         (case (src, lookup (tree fs) new) of
                            (File x, Some (Dir b ks)) \<Rightarrow> Inl EISDIR
                          | (Dir b ks, Some (File x)) \<Rightarrow> Inl ENOTDIR
                          | (Dir b ks, Some (Dir b' (k # ks'))) \<Rightarrow> Inl ENOTEMPTY
                          | _ \<Rightarrow> Inr (fs\<lparr>tree := put new src (del old (tree fs))\<rparr>)))))"

text \<open>
  \<open>std::filesystem::create_directory(p)\<close>: \<open>false\<close> when the directory exists already,
  \<open>true\<close> when it has been created (empty, and open to enumeration); the empty path
  and a path taken by a regular file are errors.
\<close>

definition fs_create_directory :: "filesystem \<Rightarrow> string \<Rightarrow> errc + bool \<times> filesystem" where
  "fs_create_directory fs p =
     (case faults fs (Op_create_directory p) of
        Some e \<Rightarrow> Inl e
      | None \<Rightarrow>
          if p = [] then Inl ENOENT
          else
          (case lookup (tree fs) (components p) of
             Some (Dir a kids) \<Rightarrow> Inr (False, fs)
           | Some (File x) \<Rightarrow> Inl (if is_sep (last p) then ENOTDIR else EEXIST)
           | None \<Rightarrow>
               (case lookup (tree fs) (butlast (components p)) of
                  None \<Rightarrow> Inl ENOENT
                | Some (File x) \<Rightarrow> Inl ENOTDIR
                | Some (Dir a kids) \<Rightarrow>
                    Inr (True, fs\<lparr>tree := put (components p) (Dir None []) (tree fs)\<rparr>))))"

text \<open>
  \<open>std::filesystem::copy_file(from, to, copy_options::overwrite_existing)\<close>: the source
  must be a regular file; an existing regular file at the destination is replaced.  A
  regular file cannot be named with a trailing separator, neither as the source nor as
  the destination.
\<close>

definition fs_copy_file :: "filesystem \<Rightarrow> string \<Rightarrow> string \<Rightarrow> errc + filesystem" where
  "fs_copy_file fs from to =
     (case faults fs (Op_copy_file from to) of
        Some e \<Rightarrow> Inl e
      | None \<Rightarrow>
          if from = [] \<or> to = [] then Inl ENOENT
          else
          (case lookup (tree fs) (components from) of
             None \<Rightarrow> Inl ENOENT
           | Some (Dir a kids) \<Rightarrow> Inl EINVAL
           | Some (File x) \<Rightarrow>
               if is_sep (last from) then Inl ENOTDIR
               else if is_sep (last to) then
                 Inl (case lookup (tree fs) (components to) of
                        Some (File y) \<Rightarrow> ENOTDIR | _ \<Rightarrow> EISDIR)
               else if components from = components to then Inl EEXIST
               else (case lookup (tree fs) (butlast (components to)) of
                       None \<Rightarrow> Inl ENOENT
                     | Some (File y) \<Rightarrow> Inl ENOTDIR
                     | Some (Dir a kids) \<Rightarrow>
                         (case lookup (tree fs) (components to) of
                            Some (Dir b ks) \<Rightarrow> Inl EISDIR
                          | _ \<Rightarrow> Inr (fs\<lparr>tree := put (components to) (File x) (tree fs)\<rparr>)))))"

text \<open>
  \<open>std::filesystem::remove(p)\<close>: \<open>false\<close> when there is nothing to remove; the root
  and a non-empty directory cannot be removed, and a regular file cannot be named with a
  trailing separator.
\<close>

definition fs_remove :: "filesystem \<Rightarrow> string \<Rightarrow> errc + bool \<times> filesystem" where
  "fs_remove fs p =
     (case faults fs (Op_remove p) of
        Some e \<Rightarrow> Inl e
      | None \<Rightarrow>
          if p = [] then Inr (False, fs)
          else if components p = [] then Inl EINVAL
          else (case lookup (tree fs) (components p) of
                  None \<Rightarrow> Inr (False, fs)
                | Some (Dir a (k # ks)) \<Rightarrow> Inl ENOTEMPTY
                | Some (File x) \<Rightarrow>
                    if is_sep (last p) then Inl ENOTDIR
                    else Inr (True, fs\<lparr>tree := del (components p) (tree fs)\<rparr>)
                | Some (Dir a []) \<Rightarrow> Inr (True, fs\<lparr>tree := del (components p) (tree fs)\<rparr>)))"

text \<open>
  What leaves a function other than by its return value: a \<open>filesystem_error\<close> that no
  handler of the function catches, or the overflow of a signed counter.
\<close>

datatype abnormal = Uncaught errc | Signed_overflow

section \<open>extensions.cpp: the classification catalog\<close>

definition CATEGORY_EXTENSION_MAP :: "(string \<times> string list) list" where
  "CATEGORY_EXTENSION_MAP = [
  (''Image Files'', [''jpg'', ''jpeg'', ''png'', ''gif'', ''bmp'', ''webp'', ''tiff'', ''svg'',
      ''ico'', ''heic'']),
  (''Video Files'', [''mp4'', ''mkv'', ''avi'', ''mov'', ''wmv'', ''flv'', ''webm'', ''mpeg'',
      ''mpg'', ''3gp'', ''m4v'']),
  (''Audio Files'', [''mp3'', ''wav'', ''aac'', ''flac'', ''ogg'', ''m4a'', ''wma'', ''opus'',
      ''aiff'']),
  (''Text Files'', [''txt'', ''md'', ''log'', ''rtf'', ''nfo'']),
  (''PDF Files'', [''pdf'']),
  (''Word Files'', [''doc'', ''docx'']),
  (''Excel Files'', [''xls'', ''xlsx'']),
  (''PowerPoint Files'', [''ppt'', ''pptx'']),
  (''C Files'', [''c'']),
  (''C++ Files'', [''cpp'', ''cc'', ''cxx'']),
  (''Header Files'', [''h'', ''hpp'', ''hh'', ''hxx'']),
  (''Java Files'', [''java'']),
  (''Python Files'', [''py'']),
  (''JavaScript Files'', [''js'']),
  (''TypeScript Files'', [''ts'']),
  (''Web Files'', [''html'', ''css'', ''scss'']),
  (''Shell Scripts'', [''sh'']),
  (''Go Files'', [''go'']),
  (''Rust Files'', [''rs'']),
  (''PHP Files'', [''php'']),
  (''Data Files'', [''csv'', ''json'', ''xml'', ''yaml'', ''yml'']),
  (''Database Files'', [''sql'', ''db'', ''sqlite'', ''sqlite3'', ''mdb'']),
  (''Archive Files'', [''zip'', ''rar'', ''7z'', ''tar'', ''gz'', ''bz2'', ''xz'', ''tgz'']),
  (''Executable Files'', [''exe'', ''msi'', ''bin'', ''app'', ''apk'']),
  (''Library Files'', [''dll'', ''so'', ''dylib'', ''a'', ''lib'']),
  (''Config Files'', [''ini'', ''conf'', ''cfg'', ''env''])
  ]"

text \<open>\<open>CANONICAL_NAMES\<close>: the keys of the extension map, collected into a set.\<close>

definition CANONICAL_NAMES :: "string set" where
  "CANONICAL_NAMES =
     fold (\<lambda>it holder. insert (fst it) holder) (std_map_items CATEGORY_EXTENSION_MAP) {}"

text \<open>
  The reverse tables are built by the same double loop: for every category in key order
  and every string of its set, \<open>lookup[s] = category.first\<close>; a later assignment
  overwrites an earlier one.
\<close>

definition invert_catalog :: "(string \<times> string list) list \<Rightarrow> (string \<rightharpoonup> string)" where
  "invert_catalog m =
     fold (\<lambda>category lookup. fold (\<lambda>s l. l(s \<mapsto> fst category)) (snd category) lookup)
       (std_map_items m) Map.empty"

definition EXTENSION_LOOKUP :: "string \<rightharpoonup> string" where
  "EXTENSION_LOOKUP = invert_catalog CATEGORY_EXTENSION_MAP"

section \<open>filesystem_utils.cpp: the alias catalog\<close>

definition CATEGORY_ALIAS_MAP :: "(string \<times> string list) list" where
  "CATEGORY_ALIAS_MAP = [
  (''Image Files'', [''img'', ''imgs'', ''image'', ''images'', ''pic'', ''pics'', ''picture'',
      ''pictures'', ''photo'', ''photos'', ''photography'', ''camera'', ''camera roll'',
      ''gallery'', ''photo gallery'', ''screenshots'', ''wallpapers'', ''backgrounds'',
      ''portraits'', ''landscapes'', ''selfies'', ''family photos'', ''vacation photos'',
      ''travel photos'', ''event photos'', ''wedding photos'', ''birthday photos'',
      ''nature photos'', ''street photos'', ''raw images'', ''edited photos'',
      ''final images'', ''scans'', ''prints'', ''artwork'', ''illustrations'', ''graphics'',
      ''icons'', ''logos'', ''thumbnails'', ''references'', ''inspiration'',
      ''concept art'']),
  (''Video Files'', [''video'', ''videos'', ''vid'', ''vids'', ''movie'', ''movies'',
      ''films'', ''clips'', ''recordings'', ''lectures'', ''screen captures'',
      ''tutorial videos'', ''courses'', ''vlogs'', ''reels'', ''shorts'', ''vacation videos'',
      ''travel videos'', ''family videos'', ''event videos'', ''wedding videos'', ''gameplay'',
      ''walkthroughs'', ''streams'', ''webinars'', ''meetings recordings'', ''interviews'',
      ''trailers'', ''screen recordings'', ''edits'', ''final cuts'', ''raw footage'',
      ''b roll'', ''montage'', ''highlights'', ''dashcam'', ''timelapse'', ''slow motion'',
      ''drone footage'']),
  (''Audio Files'', [''audio'', ''audios'', ''music'', ''songs'', ''tracks'', ''albums'',
      ''playlist'', ''playlists'', ''podcast'', ''audiobooks'', ''voice notes'',
      ''voice recordings'', ''lectures audio'', ''interviews audio'', ''sfx'',
      ''meetings audio'', ''sound effects'', ''background music'', ''instrumentals'',
      ''beats'', ''loops'', ''samples'', ''recordings'', ''live recordings'', ''concerts'',
      ''practice'', ''rehearsals'', ''demos'', ''draft mixes'', ''final mixes'', ''masters'',
      ''exports'', ''ringtones'', ''notifications'', ''alarms'', ''ambient sounds'',
      ''nature sounds'', ''podcasts'']),
  (''Text Files'', [''text'', ''texts'', ''text files'', ''txt files'', ''notes'',
      ''plain text'', ''logs'', ''markdown'', ''readme'', ''documentation'',
      ''draft notes'']),
  (''PDF Files'', [''pdf'', ''pdfs'', ''pdf files'', ''documents pdf'', ''manuals pdf'',
      ''ebooks'', ''reports pdf'', ''invoices pdf'', ''statements pdf'', ''scanned pdfs'']),
  (''Word Files'', [''word'', ''word files'', ''documents word'', ''doc files'',
      ''docx files'', ''letters'', ''reports word'', ''essays'', ''assignments'', ''resumes'',
      ''cover letters'']),
  (''Excel Files'', [''excel'', ''excel files'', ''spreadsheets'', ''sheets'',
      ''financial sheets'', ''budgets'', ''expenses'', ''accounts'', ''tracking sheets'',
      ''reports excel'', ''tables'']),
  (''PowerPoint Files'', [''powerpoint'', ''powerpoint files'', ''presentations'', ''slides'',
      ''ppt files'', ''pptx files'', ''pitch decks'', ''lecture slides'',
      ''meeting slides'']),
  (''C Files'', [''c'', ''c files'', ''c source'', ''c language'', ''c programs'']),
  (''C++ Files'', [''cpp'', ''c++'', ''cplusplus'', ''cpp files'', ''c++ source'',
      ''c++ programs'']),
  (''Java Files'', [''java'', ''java files'', ''java source'', ''java programs'']),
  (''Python Files'', [''python'', ''python files'', ''python source'', ''py scripts'',
      ''python programs'', ''python scripts'']),
  (''JavaScript Files'', [''javascript'', ''javascript files'', ''js files'', ''js source'']),
  (''TypeScript Files'', [''typescript'', ''typescript files'', ''ts files'', ''ts source'']),
  (''Web Files'', [''web'', ''web files'', ''html files'', ''css files'', ''frontend'',
      ''frontend files'']),
  (''Shell Scripts'', [''shell'', ''shell scripts'', ''bash scripts'', ''terminal scripts'']),
  (''Go Files'', [''go'', ''golang'', ''go files'', ''go source'', ''go programs'']),
  (''Rust Files'', [''rust'', ''rust files'', ''rust source'', ''rs files'',
      ''rust programs'']),
  (''PHP Files'', [''php'', ''php files'', ''php source'', ''php scripts'']),
  (''Database Files'', [''database'', ''databases'', ''db'', ''db files'', ''sqlite'',
      ''sql files'']),
  (''Archive Files'', [''archive'', ''archives'', ''compressed'', ''compressed files'',
      ''zip files'', ''rar files'', ''backups'', ''backup archives'']),
  (''Executable Files'', [''executables'', ''binaries'', ''apps'', ''applications'',
      ''programs'', ''installers'']),
  (''Library Files'', [''libraries'', ''libs'', ''shared libraries'', ''static libraries'']),
  (''Config Files'', [''config'', ''configs'', ''configuration'', ''settings'', ''env files'',
      ''environment config''])
  ]"

definition ALIAS_LOOKUP :: "string \<rightharpoonup> string" where
  "ALIAS_LOOKUP = invert_catalog CATEGORY_ALIAS_MAP"


section \<open>extensions.cpp: classification\<close>

definition classify_file_by_extension :: "string \<Rightarrow> string" where
  "classify_file_by_extension file_path =
     (let extension0 = extension file_path in
      if extension0 = [] then ''Others''
      else let extension1 = lowercase (drop 1 extension0) in
        case EXTENSION_LOOKUP extension1 of
          Some category \<Rightarrow> category
        | None \<Rightarrow> ''Others'')"

section \<open>filesystem_utils.hpp, organizer.hpp: the status enumerations\<close>

datatype path_status = ok | not_found | not_directory | permission_denied | unknown_path_error

datatype create_directory_status =
  already_exists | successful_creation | permission_denied_failure | unknown_failure

datatype file_move_status =
  successful_transfer | permission_denied | cross_device_error | unknown_failure

datatype organize_status =
    success
  | path_not_found
  | not_a_directory
  | permission_denied
  | directory_creation_failed
  | already_in_correct_location
  | atomic_transfer_failed
  | fallback_transfer_failed
  | unknown_error

datatype transfer_mode = atomic_transfer_mode | fallback_transfer_mode

section \<open>filesystem_utils.cpp\<close>

text \<open>
  \<open>validate_path\<close>.  The calls of \<open>exists\<close> and \<open>is_directory\<close> are outside the \<open>try\<close>
  block.  The flag \<open>accessible\<close> starts as \<open>true\<close> and is cleared only in the handler,
  and only for \<open>errc::permission_denied\<close>.
\<close>

definition validate_path :: "filesystem \<Rightarrow> string \<Rightarrow> abnormal + path_status" where
  "validate_path fs root_path =
     (case fs_exists fs root_path of
        Inl e \<Rightarrow> Inl (Uncaught e)
      | Inr found \<Rightarrow>
          if \<not> found then Inr path_status.not_found
          else
            (case fs_is_directory fs root_path of
               Inl e \<Rightarrow> Inl (Uncaught e)
             | Inr is_dir \<Rightarrow>
                 if \<not> is_dir then Inr path_status.not_directory
                 else
                   let accessible =
                         (case directory_iterator fs root_path of
                            Inr varname \<Rightarrow> True
                          | Inl e \<Rightarrow> if e = EACCES then False else True)
                   in if accessible = False then Inr path_status.permission_denied
                      else
                        (case fs_exists fs root_path of
                           Inl e \<Rightarrow> Inl (Uncaught e)
                         | Inr found' \<Rightarrow>
                             if \<not> found' then Inr path_status.unknown_path_error
                             else
                               (case fs_is_directory fs root_path of
                                  Inl e \<Rightarrow> Inl (Uncaught e)
                                | Inr is_dir' \<Rightarrow>
                                    if is_dir' \<and> accessible then Inr path_status.ok
                                    else Inr path_status.unknown_path_error))))"

definition get_parent_folder_name :: "string \<Rightarrow> string" where
  "get_parent_folder_name current_directory_level_path = filename current_directory_level_path"

text \<open>
  \<open>normalize_category_folder\<close>, first loop: one step of the scan that fills
  \<open>canonical_folder_map\<close>, keeping the first folder met for each canonical name.
\<close>

definition scan_entry ::
  "filesystem \<Rightarrow> string \<Rightarrow> (string \<times> string) list \<Rightarrow> (string \<times> string) list" where
  "scan_entry fs entry canonical_folder_map =
     (if \<not> entry_is_directory fs entry then canonical_folder_map
      else
        let folder_entry_name = filename entry in
        if folder_entry_name \<in> CANONICAL_NAMES then canonical_folder_map
        else
          (case ALIAS_LOOKUP (lowercase folder_entry_name) of
             None \<Rightarrow> canonical_folder_map
           | Some canonical_name \<Rightarrow>
               if map_of canonical_folder_map canonical_name = None
               then canonical_folder_map @ [(canonical_name, entry)]
               else canonical_folder_map))"

text \<open>Second loop: one rename, its failure swallowed by \<open>catch (...)\<close>.\<close>

definition rename_entry :: "string \<times> string \<Rightarrow> filesystem \<Rightarrow> filesystem" where
  "rename_entry it fs =
     (let canonical_folder_name = fst it;
          old_path = snd it;
          new_path = append_path (parent_path old_path) canonical_folder_name
      in if filename old_path \<noteq> canonical_folder_name
         then (case fs_rename fs old_path new_path of Inr fs' \<Rightarrow> fs' | Inl e \<Rightarrow> fs)
         else fs)"

text \<open>The enumeration of the level is outside every \<open>try\<close> block.\<close>

definition normalize_category_folder :: "filesystem \<Rightarrow> string \<Rightarrow> abnormal + filesystem" where
  "normalize_category_folder fs current_directory_level_path =
     (case directory_iterator fs current_directory_level_path of
        Inl e \<Rightarrow> Inl (Uncaught e)
      | Inr entries \<Rightarrow>
          let canonical_folder_map = fold (scan_entry fs) entries []
          in Inr (fold rename_entry (std_map_items canonical_folder_map) fs))"

text \<open>\<open>create_directory\<close>: the call of \<open>exists\<close> is outside the \<open>try\<close> block.\<close>

definition create_directory ::
  "filesystem \<Rightarrow> string \<Rightarrow> abnormal + create_directory_status \<times> filesystem" where
  "create_directory fs target_directory_path =
     (case fs_exists fs target_directory_path of
        Inl e \<Rightarrow> Inl (Uncaught e)
      | Inr found \<Rightarrow>
          if \<not> found then
            (case fs_create_directory fs target_directory_path of
               Inr (created, fs') \<Rightarrow> Inr (successful_creation, fs')
             | Inl e \<Rightarrow>
                 if e = EACCES then Inr (permission_denied_failure, fs)
                 else Inr (create_directory_status.unknown_failure, fs))
          else Inr (already_exists, fs))"

text \<open>
  \<open>get_unique_path\<close>.  The \<open>do ... while\<close> loop: the candidate is built from the
  counter, the counter is incremented (an \<open>int\<close>: incrementing \<open>INT_MAX\<close> overflows), then
  the candidate is tested.  The function has no \<open>try\<close> block: a failing \<open>exists\<close>
  leaves it as an exception.
\<close>

definition numbered_name :: "string \<Rightarrow> string \<Rightarrow> int \<Rightarrow> string" where
  "numbered_name stem0 extension0 counter =
     stem0 @ ''('' @ to_string counter @ '')'' @ extension0"

function unique_loop ::
  "filesystem \<Rightarrow> string \<Rightarrow> string \<Rightarrow> string \<Rightarrow> int \<Rightarrow> abnormal + string" where
  "unique_loop fs destination_dir stem0 extension0 counter =
     (let target_path = append_path destination_dir (numbered_name stem0 extension0 counter)
      in if INT_MAX \<le> counter then Inl Signed_overflow
         else
           (case fs_exists fs target_path of
              Inl e \<Rightarrow> Inl (Uncaught e)
            | Inr found \<Rightarrow>
                if found then unique_loop fs destination_dir stem0 extension0 (counter + 1)
                else Inr target_path))"
  by pat_completeness auto
termination
  by (relation "measure (\<lambda>(fs, d, s, e, counter). nat (INT_MAX - counter))") auto

declare unique_loop.simps [simp del]

definition get_unique_path :: "filesystem \<Rightarrow> string \<Rightarrow> string \<Rightarrow> abnormal + string" where
  "get_unique_path fs destination_dir filename0 =
     (let target_path = append_path destination_dir filename0 in
      (case fs_exists fs target_path of
         Inl e \<Rightarrow> Inl (Uncaught e)
       | Inr found \<Rightarrow>
           if \<not> found then Inr target_path
           else unique_loop fs destination_dir (stem filename0) (extension filename0) 1))"

text \<open>
  The handlers of the two transfers.  Each transfer is one \<open>try\<close> block, so the handler
  also receives what \<open>get_unique_path\<close> throws.
\<close>

definition atomic_handler :: "errc \<Rightarrow> file_move_status" where
  "atomic_handler e =
     (if e = EACCES then file_move_status.permission_denied
      else if e = EXDEV then cross_device_error
      else file_move_status.unknown_failure)"

definition fallback_handler :: "errc \<Rightarrow> file_move_status" where
  "fallback_handler e =
     (if e = EACCES then file_move_status.permission_denied
      else file_move_status.unknown_failure)"

definition atomic_file_transfer ::
  "filesystem \<Rightarrow> string \<Rightarrow> string \<Rightarrow> abnormal + file_move_status \<times> filesystem" where
  "atomic_file_transfer fs source_path destination_dir_path =
     (case get_unique_path fs destination_dir_path (filename source_path) of
        Inl (Uncaught e) \<Rightarrow> Inr (atomic_handler e, fs)
      | Inl Signed_overflow \<Rightarrow> Inl Signed_overflow
      | Inr new_unique_destination \<Rightarrow>
          (case fs_rename fs source_path new_unique_destination of
             Inr fs' \<Rightarrow> Inr (successful_transfer, fs')
           | Inl e \<Rightarrow> Inr (atomic_handler e, fs)))"

definition fallback_transfer ::
  "filesystem \<Rightarrow> string \<Rightarrow> string \<Rightarrow> abnormal + file_move_status \<times> filesystem" where
  "fallback_transfer fs source_path destination_dir_path =
     (case get_unique_path fs destination_dir_path (filename source_path) of
        Inl (Uncaught e) \<Rightarrow> Inr (fallback_handler e, fs)
      | Inl Signed_overflow \<Rightarrow> Inl Signed_overflow
      | Inr new_unique_destination \<Rightarrow>
          (case fs_copy_file fs source_path new_unique_destination of
             Inl e \<Rightarrow> Inr (fallback_handler e, fs)
           | Inr fs1 \<Rightarrow>
               (case fs_remove fs1 source_path of
                  Inl e \<Rightarrow> Inr (fallback_handler e, fs1)
                | Inr (removed, fs2) \<Rightarrow> Inr (successful_transfer, fs2))))"

section \<open>organizer.cpp\<close>

definition process_path_validation :: "filesystem \<Rightarrow> string \<Rightarrow> abnormal + organize_status"
  where
  "process_path_validation fs root_path =
     (case validate_path fs root_path of
        Inl a \<Rightarrow> Inl a
      | Inr ps \<Rightarrow>
          Inr (case ps of
                 path_status.ok \<Rightarrow> success
               | path_status.not_found \<Rightarrow> path_not_found
               | path_status.not_directory \<Rightarrow> not_a_directory
               | path_status.permission_denied \<Rightarrow> organize_status.permission_denied
               | path_status.unknown_path_error \<Rightarrow> unknown_error))"

text \<open>\<open>handle_file\<close>: the combination of the two outcomes in atomic mode ...\<close>

definition atomic_outcome :: "create_directory_status \<Rightarrow> file_move_status \<Rightarrow> organize_status" where
  "atomic_outcome creation_result atomic_transfer_result =
     (if (creation_result = successful_creation \<or> creation_result = already_exists)
         \<and> atomic_transfer_result = successful_transfer then success
      else if creation_result = permission_denied_failure
         \<or> atomic_transfer_result = file_move_status.permission_denied
        then organize_status.permission_denied
      else if atomic_transfer_result = cross_device_error then atomic_transfer_failed
      else if creation_result = create_directory_status.unknown_failure
        then directory_creation_failed
      else unknown_error)"

text \<open>... and in fallback mode.\<close>

definition fallback_outcome :: "create_directory_status \<Rightarrow> file_move_status \<Rightarrow> organize_status" where
  "fallback_outcome creation_result fallback_transfer_result =
     (if (creation_result = successful_creation \<or> creation_result = already_exists)
         \<and> fallback_transfer_result = successful_transfer then success
      else if creation_result = permission_denied_failure
         \<or> fallback_transfer_result = file_move_status.permission_denied
        then organize_status.permission_denied
      else if creation_result = create_directory_status.unknown_failure
        then directory_creation_failed
      else fallback_transfer_failed)"

definition handle_file ::
  "filesystem \<Rightarrow> string \<Rightarrow> string \<Rightarrow> transfer_mode \<Rightarrow> abnormal + organize_status \<times> filesystem"
  where
  "handle_file fs current_directory_level_path entry_path t_mode =
     (let category_name = classify_file_by_extension entry_path;
          parent_folder_name = get_parent_folder_name current_directory_level_path
      in
      if category_name = parent_folder_name then Inr (already_in_correct_location, fs)
      else if ALIAS_LOOKUP parent_folder_name \<noteq> None
          \<and> ALIAS_LOOKUP parent_folder_name = Some category_name
        then Inr (already_in_correct_location, fs)
      else
        let base_location =
              (if parent_folder_name \<in> CANONICAL_NAMES \<and> category_name \<noteq> parent_folder_name
                 then parent_path current_directory_level_path
               else if ALIAS_LOOKUP parent_folder_name \<noteq> None
                   \<and> ALIAS_LOOKUP parent_folder_name \<noteq> Some category_name
                 then parent_path current_directory_level_path
               else current_directory_level_path);
            destination_dir_path = append_path base_location category_name
        in
        (case create_directory fs destination_dir_path of
           Inl a \<Rightarrow> Inl a
         | Inr creation \<Rightarrow>
             if t_mode = atomic_transfer_mode then
               (case atomic_file_transfer (snd creation) entry_path destination_dir_path of
                  Inl a \<Rightarrow> Inl a
                | Inr (atomic_transfer_result, fs') \<Rightarrow>
                    Inr (atomic_outcome (fst creation) atomic_transfer_result, fs'))
             else
               (case fallback_transfer (snd creation) entry_path destination_dir_path of
                  Inl a \<Rightarrow> Inl a
                | Inr (fallback_transfer_result, fs') \<Rightarrow>
                    Inr (fallback_outcome (fst creation) fallback_transfer_result, fs'))))"

text \<open>
  The state of the walk: the file system, the vector \<open>directories\<close> used as a stack (its
  back is the head of the list), and a record of the status \<open>handle_file\<close> returned for
  each regular file, kept to state what a run did.
\<close>

record traversal =
  files :: filesystem
  directories :: "string list"
  handled :: "organize_status list"

text \<open>
  The \<open>for\<close> loop over the entries of one level.  The entries are those the level had
  when the enumeration started; each is examined in the file system as it is when its
  turn comes, by \<open>is_regular_file\<close> and \<open>is_directory\<close>, which are outside every \<open>try\<close>
  block.  \<open>Some s\<close> is the \<open>return s\<close> inside the loop.
\<close>

fun process_entries ::
  "transfer_mode \<Rightarrow> string \<Rightarrow> string list \<Rightarrow> traversal
     \<Rightarrow> abnormal + organize_status option \<times> traversal" where
  "process_entries t_mode cur [] st = Inr (None, st)"
| "process_entries t_mode cur (entry_path # rest) st =
     (case fs_is_regular_file (files st) entry_path of
        Inl e \<Rightarrow> Inl (Uncaught e)
      | Inr is_file \<Rightarrow>
          if is_file then
            (case handle_file (files st) cur entry_path t_mode of
               Inl a \<Rightarrow> Inl a
             | Inr (s, fs') \<Rightarrow>
                 let st' = st\<lparr>files := fs', handled := handled st @ [s]\<rparr> in
                 if s = already_in_correct_location then process_entries t_mode cur rest st'
                 else if s \<noteq> success then Inr (Some s, st')
                 else process_entries t_mode cur rest st')
          else
            (case fs_is_directory (files st) entry_path of
               Inl e \<Rightarrow> Inl (Uncaught e)
             | Inr is_dir \<Rightarrow>
                 if is_dir then
                   (let name = filename entry_path in
                    if name \<noteq> [] \<and> hd name \<noteq> CHR ''.''
                      then process_entries t_mode cur rest
                             (st\<lparr>directories := entry_path # directories st\<rparr>)
                    else process_entries t_mode cur rest st)
                 else process_entries t_mode cur rest st))"

text \<open>
  The \<open>while\<close> loop over the stack.  The two enumerations of a level (in
  \<open>normalize_category_folder\<close> and in the \<open>for\<close> statement) are outside every \<open>try\<close>
  block.  A walk that never ends has the value \<open>None\<close>.
\<close>

partial_function (option) organize_loop ::
  "transfer_mode \<Rightarrow> traversal \<Rightarrow> (abnormal + organize_status \<times> traversal) option" where
  "organize_loop t_mode st =
     (case directories st of
        [] \<Rightarrow> Some (Inr (success, st))
      | current_directory_level_path # remaining \<Rightarrow>
          (case normalize_category_folder (files st) current_directory_level_path of
             Inl a \<Rightarrow> Some (Inl a)
           | Inr fs1 \<Rightarrow>
               (case directory_iterator fs1 current_directory_level_path of
                  Inl e \<Rightarrow> Some (Inl (Uncaught e))
                | Inr entries \<Rightarrow>
                    (case process_entries t_mode current_directory_level_path entries
                            (st\<lparr>files := fs1, directories := remaining\<rparr>) of
                       Inl a \<Rightarrow> Some (Inl a)
                     | Inr (Some s, st') \<Rightarrow> Some (Inr (s, st'))
                     | Inr (None, st') \<Rightarrow> organize_loop t_mode st'))))"

declare organize_loop.simps [code]

definition organize_directory ::
  "filesystem \<Rightarrow> string \<Rightarrow> transfer_mode \<Rightarrow> (abnormal + organize_status \<times> traversal) option"
  where
  "organize_directory fs root_path t_mode =
     (case process_path_validation fs root_path of
        Inl a \<Rightarrow> Some (Inl a)
      | Inr root_path_state \<Rightarrow>
          if root_path_state \<noteq> success
            then Some (Inr (root_path_state, \<lparr>files = fs, directories = [], handled = []\<rparr>))
          else organize_loop t_mode \<lparr>files = fs, directories = [root_path], handled = []\<rparr>)"

section \<open>Notions used in the statements\<close>

text \<open>The name of a directory entry is not empty and contains no separator.\<close>

definition valid_name :: "string \<Rightarrow> bool" where
  "valid_name n = (n \<noteq> [] \<and> (\<forall>c \<in> set n. \<not> is_sep c))"


section \<open>Sample file systems\<close>

text \<open>Small trees on which the statements below are evaluated.\<close>

definition no_faults :: "fs_op \<Rightarrow> errc option" where
  "no_faults op = None"

definition collision_tree :: node where
  "collision_tree =
     Dir None [(''r'', Dir None
       [(''a.txt'', File ''new''),
        (''d'', Dir None [(''a.txt'', File ''old''), (''a(1).txt'', File ''older'')])])]"

definition copy_denied :: "fs_op \<Rightarrow> errc option" where
  "copy_denied op = (if op = Op_copy_file ''/r/a.txt'' ''/r/d/a(2).txt'' then Some EACCES else None)"

definition io_error_tree :: node where
  "io_error_tree = Dir None [(''r'', Dir (Some EIO) [(''a.png'', File ''x'')])]"

definition unreadable_tree :: node where
  "unreadable_tree = Dir None [(''r'', Dir None [(''private'', Dir (Some EACCES) [])])]"

definition alias_case_tree :: node where
  "alias_case_tree = Dir None [(''r'', Dir None [(''Pics'', Dir None [(''a.png'', File ''x'')])])]"

definition alias_upper_tree :: node where
  "alias_upper_tree =
     Dir None [(''r'', Dir None [(''Pics'', Dir None [(''notes.pdf'', File ''n'')])])]"

definition alias_inside_tree :: node where
  "alias_inside_tree =
     Dir None [(''r'', Dir None
       [(''Image Files'', Dir None
          [(''photos'', Dir None [(''x.pdf'', File ''p'')])])])]"


text \<open>
  A limit of 255 bytes on the length of a name: the status query fails for a path with a
  longer component.
\<close>

definition name_limit :: "fs_op \<Rightarrow> errc option" where
  "name_limit op =
     (case op of
        Op_status p \<Rightarrow>
          if \<exists>c \<in> set (components p). 255 < length c then Some ENAMETOOLONG else None
      | _ \<Rightarrow> None)"

definition long_name :: string where
  "long_name = replicate 251 (CHR ''a'') @ ''.txt''"

definition long_name_tree :: node where
  "long_name_tree =
     Dir None [(''d'', Dir None [(long_name, File ''old'')]),
               (''s'', Dir None [(long_name, File ''new'')])]"

section \<open>Properties of the catalogs\<close>

lemma fold_assign_apply:
  "fold (\<lambda>s l. l(s \<mapsto> c)) ss l k = (if k \<in> set ss then Some c else l k)"
  by (induction ss arbitrary: l) auto

lemma invert_fold_apply:
  assumes F: "\<And>cat l k. F cat l k = (if k \<in> set (snd cat) then Some (fst cat) else l k)"
  shows "fold F xs l0 k =
     (case filter (\<lambda>cat. k \<in> set (snd cat)) xs of
        [] \<Rightarrow> l0 k
      | y # ys \<Rightarrow> Some (fst (last (y # ys))))"
proof (induction xs arbitrary: l0)
  case Nil
  then show ?case by simp
next
  case (Cons x xs)
  have "fold F (x # xs) l0 k = fold F xs (F x l0) k"
    by simp
  also have "\<dots> = (case filter (\<lambda>cat. k \<in> set (snd cat)) xs of
        [] \<Rightarrow> F x l0 k
      | y # ys \<Rightarrow> Some (fst (last (y # ys))))"
    by (rule Cons.IH)
  also have "\<dots> = (case filter (\<lambda>cat. k \<in> set (snd cat)) (x # xs) of
        [] \<Rightarrow> l0 k
      | y # ys \<Rightarrow> Some (fst (last (y # ys))))"
    by (cases "filter (\<lambda>cat. k \<in> set (snd cat)) xs") (simp_all add: F)
  finally show ?case .
qed

lemma invert_catalog_apply:
  "invert_catalog m k =
     (case sort_key fst (filter (\<lambda>cat. k \<in> set (snd cat)) m) of
        [] \<Rightarrow> None
      | y # ys \<Rightarrow> Some (fst (last (y # ys))))"
  unfolding invert_catalog_def std_map_items_def
  by (subst invert_fold_apply) (simp_all add: fold_assign_apply filter_sort)

lemma filter_owner:
  assumes "distinct (concat (map snd m))" "x \<in> set m" "e \<in> set (snd x)"
  shows "filter (\<lambda>cat. e \<in> set (snd cat)) m = [x]"
  using assms
proof (induction m)
  case Nil
  then show ?case by simp
next
  case (Cons y m)
  show ?case
  proof (cases "e \<in> set (snd y)")
    case True
    with Cons.prems have none: "\<forall>z \<in> set m. e \<notin> set (snd z)"
      by auto
    with Cons.prems True have "x = y" by auto
    moreover from none have "filter (\<lambda>cat. e \<in> set (snd cat)) m = []"
      by (simp add: filter_empty_conv)
    ultimately show ?thesis using True by simp
  next
    case False
    with Cons.prems have "x \<in> set m" by auto
    with Cons.IH Cons.prems False show ?thesis by simp
  qed
qed

lemma invert_catalog_owner:
  assumes "distinct (concat (map snd m))" "(c, es) \<in> set m" "e \<in> set es"
  shows "invert_catalog m e = Some c"
  using filter_owner [OF assms(1) assms(2)] assms(3)
  by (simp add: invert_catalog_apply)

lemma invert_catalog_none:
  "(\<forall>x \<in> set m. e \<notin> set (snd x)) \<Longrightarrow> invert_catalog m e = None"
  by (simp add: invert_catalog_apply filter_empty_conv)

lemma invert_catalog_some:
  assumes "invert_catalog m e = Some c"
  shows "\<exists>es. (c, es) \<in> set m \<and> e \<in> set es"
proof -
  let ?ys = "sort_key fst (filter (\<lambda>cat. e \<in> set (snd cat)) m)"
  from assms have ne: "?ys \<noteq> []" and c: "c = fst (last ?ys)"
    by (auto simp: invert_catalog_apply split: list.splits)
  from ne have "last ?ys \<in> set ?ys" by (rule last_in_set)
  then have "last ?ys \<in> set m \<and> e \<in> set (snd (last ?ys))" by simp
  with c show ?thesis by (cases "last ?ys") auto
qed

lemma extension_catalog_distinct: "distinct (concat (map snd CATEGORY_EXTENSION_MAP))"
  unfolding CATEGORY_EXTENSION_MAP_def by simp

lemma extension_catalog_chars:
  "\<forall>e \<in> set (concat (map snd CATEGORY_EXTENSION_MAP)).
     e \<noteq> [] \<and> CHR ''.'' \<notin> set e \<and> CHR ''/'' \<notin> set e"
  unfolding CATEGORY_EXTENSION_MAP_def by simp

lemma tolower_dot: "tolower c = CHR ''.'' \<longleftrightarrow> c = CHR ''.''"
  by (auto simp: tolower_def split: if_splits)

lemma tolower_sep: "tolower c = CHR ''/'' \<longleftrightarrow> c = CHR ''/''"
  by (auto simp: tolower_def split: if_splits)

lemma CANONICAL_NAMES_eq: "CANONICAL_NAMES = set (map fst CATEGORY_EXTENSION_MAP)"
proof -
  have "fold (\<lambda>it holder. insert (fst it) holder) xs A = set (map fst xs) \<union> A" for xs :: "(string \<times> string list) list" and A
    by (induction xs arbitrary: A) auto
  then show ?thesis
    by (simp add: CANONICAL_NAMES_def std_map_items_def)
qed

lemma EXTENSION_LOOKUP_in_canonical:
  assumes "EXTENSION_LOOKUP e = Some c"
  shows "c \<in> CANONICAL_NAMES"
proof -
  from assms obtain es where "(c, es) \<in> set CATEGORY_EXTENSION_MAP"
    unfolding EXTENSION_LOOKUP_def by (blast dest: invert_catalog_some)
  then show ?thesis unfolding CANONICAL_NAMES_eq by force
qed

text \<open>
  Claim C4.  Every extension belongs to exactly one category, every alias belongs to
  exactly one canonical category, and no canonical name is an alias.  The alias table
  breaks the second part: \<open>recordings\<close> is listed under two categories, and the reverse
  table keeps the one whose key comes last, \<open>Video Files\<close>.
\<close>

theorem alias_recordings_owned_twice:
  "map fst (filter (\<lambda>category. ''recordings'' \<in> set (snd category)) CATEGORY_ALIAS_MAP)
     = [''Video Files'', ''Audio Files'']
   \<and> ALIAS_LOOKUP ''recordings'' = Some ''Video Files''"
  unfolding ALIAS_LOOKUP_def invert_catalog_apply CATEGORY_ALIAS_MAP_def by simp

section \<open>Classification\<close>

lemma takeWhile_all_append:
  "\<forall>x \<in> set xs. P x \<Longrightarrow> takeWhile P (xs @ ys) = xs @ takeWhile P ys"
  by (induction xs) auto

lemma lowercase_keeps_char:
  "tolower c = c \<Longrightarrow> c \<in> set e \<Longrightarrow> c \<in> set (lowercase e)"
  by (force simp: lowercase_def)

lemma filename_append_plain:
  "\<forall>c \<in> set s. \<not> is_sep c \<Longrightarrow> filename (p @ s) = filename p @ s"
  using takeWhile_all_append [of "rev s" "\<lambda>c. \<not> is_sep c" "rev p"]
  by (simp add: filename_def)

lemma filename_nonempty: "p \<noteq> [] \<Longrightarrow> \<not> is_sep (last p) \<Longrightarrow> filename p \<noteq> []"
  by (cases p rule: rev_cases) (simp_all add: filename_def)

lemma find_extension_suffix:
  assumes "f \<noteq> []" "e \<noteq> []" "CHR ''.'' \<notin> set e"
  shows "find_extension (f @ CHR ''.'' # e) = Some (length f)"
proof -
  have tw: "takeWhile (\<lambda>c. c \<noteq> CHR ''.'') (rev (f @ CHR ''.'' # e)) = rev e"
    using assms(3) takeWhile_all_append [of "rev e" "\<lambda>c. c \<noteq> CHR ''.''" "CHR ''.'' # rev f"]
    by auto
  from assms(1,2) have "3 \<le> length (f @ CHR ''.'' # e)"
    by (cases f; cases e) simp_all
  with assms(1) show ?thesis
    unfolding find_extension_def tw by (simp add: Let_def)
qed

lemma extension_suffix:
  assumes "p \<noteq> []" "\<not> is_sep (last p)" "e \<noteq> []" "CHR ''.'' \<notin> set e" "CHR ''/'' \<notin> set e"
  shows "extension (p @ CHR ''.'' # e) = CHR ''.'' # e"
proof -
  have "\<forall>c \<in> set (CHR ''.'' # e). \<not> is_sep c"
    using assms(5) by (auto simp: is_sep_def)
  then have fn: "filename (p @ CHR ''.'' # e) = filename p @ CHR ''.'' # e"
    by (rule filename_append_plain)
  have "filename p \<noteq> []" using assms(1,2) by (rule filename_nonempty)
  then have "find_extension (filename p @ CHR ''.'' # e) = Some (length (filename p))"
    using assms(3,4) by (rule find_extension_suffix)
  then show ?thesis by (simp add: extension_def fn)
qed

lemma classify_range:
  "classify_file_by_extension p \<in> insert ''Others'' CANONICAL_NAMES"
proof (cases "EXTENSION_LOOKUP (lowercase (drop 1 (extension p)))")
  case None
  then show ?thesis by (simp add: classify_file_by_extension_def Let_def)
next
  case (Some c)
  then obtain es where "(c, es) \<in> set CATEGORY_EXTENSION_MAP"
    unfolding EXTENSION_LOOKUP_def by (blast dest: invert_catalog_some)
  then have "c \<in> CANONICAL_NAMES"
    unfolding CANONICAL_NAMES_eq by force
  with Some show ?thesis by (simp add: classify_file_by_extension_def Let_def)
qed

text \<open>
  Claim C5, as amended.  Classification is a total function into the canonical names and
  \<open>Others\<close>.  A path that ends in a dot and a catalogued extension, in any letter case,
  is classified by the category owning the extension, provided the dot is not the first
  character of the final component; a path whose extension is absent, or is not in the
  catalog once its dot is dropped and it is lower-cased, is classified as \<open>Others\<close>.
\<close>

theorem classify_total:
  "(\<forall>category exts e p.
       (category, exts) \<in> set CATEGORY_EXTENSION_MAP \<and> lowercase e \<in> set exts
         \<and> p \<noteq> [] \<and> \<not> is_sep (last p)
       \<longrightarrow> classify_file_by_extension (p @ ''.'' @ e) = category)
   \<and> (\<forall>p. extension p = []
           \<or> (\<forall>entry \<in> set CATEGORY_EXTENSION_MAP.
                 lowercase (drop 1 (extension p)) \<notin> set (snd entry))
       \<longrightarrow> classify_file_by_extension p = ''Others'')
   \<and> (\<forall>p. classify_file_by_extension p \<in> insert ''Others'' CANONICAL_NAMES)"
proof (intro conjI allI impI)
  fix category exts e p
  assume a: "(category, exts) \<in> set CATEGORY_EXTENSION_MAP \<and> lowercase e \<in> set exts
         \<and> p \<noteq> [] \<and> \<not> is_sep (last p)"
  then have "lowercase e \<in> set (concat (map snd CATEGORY_EXTENSION_MAP))"
    by force
  with extension_catalog_chars
  have le: "lowercase e \<noteq> [] \<and> CHR ''.'' \<notin> set (lowercase e) \<and> CHR ''/'' \<notin> set (lowercase e)"
    by blast
  then have e: "e \<noteq> []" "CHR ''.'' \<notin> set e" "CHR ''/'' \<notin> set e"
    using lowercase_keeps_char [of "CHR ''.''" e] lowercase_keeps_char [of "CHR ''/''" e]
    by (auto simp: tolower_def lowercase_def)
  from a e have ext: "extension (p @ CHR ''.'' # e) = CHR ''.'' # e"
    by (simp add: extension_suffix)
  from a have "EXTENSION_LOOKUP (lowercase e) = Some category"
    unfolding EXTENSION_LOOKUP_def
    by (blast intro: invert_catalog_owner [OF extension_catalog_distinct])
  with ext show "classify_file_by_extension (p @ ''.'' @ e) = category"
    by (simp add: classify_file_by_extension_def)
next
  fix p
  assume "extension p = []
           \<or> (\<forall>entry \<in> set CATEGORY_EXTENSION_MAP.
                 lowercase (drop 1 (extension p)) \<notin> set (snd entry))"
  then show "classify_file_by_extension p = ''Others''"
    by (auto simp: classify_file_by_extension_def Let_def EXTENSION_LOOKUP_def
          invert_catalog_none)
next
  fix p
  show "classify_file_by_extension p \<in> insert ''Others'' CANONICAL_NAMES"
    by (rule classify_range)
qed

theorem classify_total_witness:
  "((''Image Files'', [''jpg'', ''jpeg'', ''png'', ''gif'', ''bmp'', ''webp'', ''tiff'', ''svg'',
       ''ico'', ''heic'']) \<in> set CATEGORY_EXTENSION_MAP
     \<and> lowercase ''JPG'' \<in> set [''jpg'', ''jpeg'', ''png'', ''gif'', ''bmp'', ''webp'', ''tiff'',
       ''svg'', ''ico'', ''heic'']
     \<and> ''/r/photo'' \<noteq> [] \<and> \<not> is_sep (last ''/r/photo''))
   \<and> classify_file_by_extension ''/r/photo.JPG'' = ''Image Files''
   \<and> extension ''/r/README'' = []
   \<and> classify_file_by_extension ''/r/README'' = ''Others''"
proof -
  have h: "(''Image Files'', [''jpg'', ''jpeg'', ''png'', ''gif'', ''bmp'', ''webp'', ''tiff'',
       ''svg'', ''ico'', ''heic'']) \<in> set CATEGORY_EXTENSION_MAP
     \<and> lowercase ''JPG'' \<in> set [''jpg'', ''jpeg'', ''png'', ''gif'', ''bmp'', ''webp'', ''tiff'',
       ''svg'', ''ico'', ''heic'']
     \<and> ''/r/photo'' \<noteq> [] \<and> \<not> is_sep (last ''/r/photo'')"
    by (simp add: CATEGORY_EXTENSION_MAP_def lowercase_def tolower_def is_sep_def)
  have e: "extension ''/r/README'' = []"
    by (simp add: extension_def filename_def find_extension_def is_sep_def)
  from classify_total h
  have "classify_file_by_extension (''/r/photo'' @ ''.'' @ ''JPG'') = ''Image Files''"
    by blast
  moreover from classify_total e have "classify_file_by_extension ''/r/README'' = ''Others''"
    by blast
  ultimately show ?thesis using h e by simp
qed

text \<open>
  The claim as stated fails for a dot-file: \<open>env\<close> is an extension of \<open>Config Files\<close>,
  but in \<open>.env\<close> the dot opens the final component, such a name has no extension, and
  the file is classified as \<open>Others\<close>.
\<close>

theorem classify_dotfile_counterexample:
  "(''Config Files'', [''ini'', ''conf'', ''cfg'', ''env'']) \<in> set CATEGORY_EXTENSION_MAP
   \<and> classify_file_by_extension (''/home/u/'' @ ''.'' @ ''env'') = ''Others''"
  by (simp add: CATEGORY_EXTENSION_MAP_def classify_file_by_extension_def extension_def
      filename_def find_extension_def is_sep_def)

section \<open>The tree\<close>

lemma lookup_File: "lookup (File x) cs = (if cs = [] then Some (File x) else None)"
  by (cases cs) simp_all

lemma lookup_append:
  "lookup t (p @ q) = (case lookup t p of None \<Rightarrow> None | Some n \<Rightarrow> lookup n q)"
proof (induction p arbitrary: t)
  case Nil
  then show ?case by simp
next
  case (Cons c p)
  then show ?case by (cases t) (simp_all split: option.splits)
qed

lemma lookup_put_same:
  "cs \<noteq> [] \<Longrightarrow> lookup t (butlast cs) = Some (Dir a kids) \<Longrightarrow> lookup (put cs new t) cs = Some new"
proof (induction cs arbitrary: t a kids)
  case Nil
  then show ?case by simp
next
  case (Cons c cs)
  show ?case
  proof (cases t)
    case (File x)
    with Cons.prems show ?thesis by (simp add: lookup_File split: if_splits)
  next
    case (Dir b ks)
    with Cons show ?thesis
      by (auto simp: update_conv' split: option.splits if_splits)
  qed
qed

lemma lookup_put_frame:
  "\<not> prefix cs q \<Longrightarrow> \<not> prefix q cs \<Longrightarrow> lookup (put cs new t) q = lookup t q"
proof (induction cs arbitrary: t q)
  case Nil
  then show ?case by simp
next
  case (Cons c cs)
  then obtain d q' where q: "q = d # q'" by (cases q) auto
  show ?case
  proof (cases t)
    case (File x)
    then show ?thesis by simp
  next
    case (Dir b ks)
    with Cons q show ?thesis
      by (auto simp: update_conv' split: option.splits)
  qed
qed

lemma lookup_put_file:
  "lookup t q = Some (File x) \<Longrightarrow> \<not> prefix cs q \<Longrightarrow> lookup (put cs new t) q = Some (File x)"
proof (induction cs arbitrary: t q)
  case Nil
  then show ?case by simp
next
  case (Cons c cs)
  show ?case
  proof (cases t)
    case (File y)
    with Cons.prems show ?thesis by simp
  next
    case (Dir b ks)
    from Cons.prems Dir obtain d q' where q: "q = d # q'" by (cases q) auto
    with Cons Dir show ?thesis
      by (auto simp: update_conv' lookup_File split: option.splits if_splits)
  qed
qed

lemma lookup_del_under:
  "cs \<noteq> [] \<Longrightarrow> prefix cs q \<Longrightarrow> lookup (del cs t) q = None"
proof (induction cs arbitrary: t q)
  case Nil
  then show ?case by simp
next
  case (Cons c cs)
  then obtain q' where q: "q = c # q'" and p: "prefix cs q'" by (cases q) auto
  show ?case
  proof (cases t)
    case (File x)
    with q show ?thesis by simp
  next
    case (Dir b ks)
    with Cons.IH q p show ?thesis
      by (auto simp: update_conv' delete_conv' split: option.splits)
  qed
qed


lemma lookup_del_file:
  "lookup t q = Some (File x) \<Longrightarrow> \<not> prefix cs q \<Longrightarrow> lookup (del cs t) q = Some (File x)"
proof (induction cs arbitrary: t q)
  case Nil
  then show ?case by simp
next
  case (Cons c cs)
  show ?case
  proof (cases t)
    case (File y)
    with Cons.prems show ?thesis by simp
  next
    case (Dir b ks)
    from Cons.prems Dir obtain d q' where q: "q = d # q'" by (cases q) auto
    with Cons Dir show ?thesis
      by (auto simp: update_conv' delete_conv' lookup_File split: option.splits if_splits)
  qed
qed


lemma lookup_del_dir:
  "lookup t q = Some (Dir a kids) \<Longrightarrow> \<not> prefix cs q
     \<Longrightarrow> \<exists>kids'. lookup (del cs t) q = Some (Dir a kids')"
proof (induction cs arbitrary: t q)
  case Nil
  then show ?case by simp
next
  case (Cons c cs)
  show ?case
  proof (cases t)
    case (File y)
    with Cons.prems show ?thesis by simp
  next
    case (Dir b ks)
    show ?thesis
    proof (cases q)
      case Nil
      with Cons.prems Dir show ?thesis by (auto split: option.splits)
    next
      case (Cons d q')
      with Cons.IH Cons.prems Dir show ?thesis
        by (auto simp: update_conv' delete_conv' split: option.splits if_splits)
    qed
  qed
qed

lemma lookup_prefix_exists:
  "lookup t p = Some n \<Longrightarrow> prefix q p \<Longrightarrow> lookup t q \<noteq> None"
  by (auto simp: prefix_def lookup_append split: option.splits)

lemma lookup_below_file:
  "lookup t q = Some (File x) \<Longrightarrow> prefix q p \<Longrightarrow> p \<noteq> q \<Longrightarrow> lookup t p = None"
  by (auto simp: prefix_def lookup_append lookup_File split: if_splits)

section \<open>Paths and their components\<close>

lemma split_seps_nonempty [simp]: "split_seps p \<noteq> []"
  by (induction p) (auto split: list.splits)

lemma split_seps_plain: "\<forall>c \<in> set n. \<not> is_sep c \<Longrightarrow> split_seps n = [n]"
  by (induction n) auto

lemma split_seps_append:
  "split_seps (p @ q) =
     butlast (split_seps p) @ [last (split_seps p) @ hd (split_seps q)] @ tl (split_seps q)"
proof (induction p)
  case Nil
  then show ?case by (cases "split_seps q") simp_all
next
  case (Cons c p)
  show ?case
  proof (cases "is_sep c")
    case True
    then show ?thesis using Cons by simp
  next
    case False
    obtain w ws where s: "split_seps p = w # ws" by (cases "split_seps p") simp_all
    obtain v vs where t: "split_seps (p @ q) = v # vs" by (cases "split_seps (p @ q)") simp_all
    show ?thesis
    proof (cases ws)
      case Nil
      with Cons s t False show ?thesis by simp
    next
      case (Cons a as)
      with Cons.IH s t False show ?thesis by simp
    qed
  qed
qed

lemma last_split_seps: "last (split_seps p) = filename p"
proof (induction p rule: rev_induct)
  case Nil
  then show ?case by (simp add: filename_def)
next
  case (snoc c p)
  have "split_seps [c] = (if is_sep c then [[], []] else [[c]])" by simp
  then show ?case using snoc
    by (simp add: split_seps_append [of p "[c]"] filename_def)
qed

lemma filename_no_sep: "\<forall>c \<in> set (filename p). \<not> is_sep c"
  unfolding filename_def using set_takeWhileD by fastforce

lemma components_append_name:
  assumes "valid_name n"
  shows "components (append_path p n) = components p @ [n]"
proof -
  from assms have n: "n \<noteq> []" "\<not> is_sep (hd n)" "split_seps n = [n]"
    by (auto simp: valid_name_def split_seps_plain)
  show ?thesis
  proof (cases "filename p = []")
    case True
    then have "last (split_seps p) = []" by (simp add: last_split_seps)
    then have "components p = filter (\<lambda>w. w \<noteq> []) (butlast (split_seps p))"
      unfolding components_def
      by (metis (mono_tags, lifting) append_butlast_last_id filter.simps(1) filter.simps(2)
          filter_append self_append_conv split_seps_nonempty)
    with True n \<open>last (split_seps p) = []\<close> show ?thesis
      by (simp add: append_path_def components_def split_seps_append [of p n])
  next
    case False
    have "split_seps (CHR ''/'' # n) = [[], n]"
      using n by (simp add: is_sep_def)
    then have "split_seps (p @ CHR ''/'' # n) = split_seps p @ [n]"
      by (simp add: split_seps_append [of p "CHR ''/'' # n"])
    with False n show ?thesis
      by (simp add: append_path_def components_def)
  qed
qed

lemma filename_append_name:
  assumes "valid_name n"
  shows "filename (append_path p n) = n"
proof -
  from assms have n: "n \<noteq> []" "\<not> is_sep (hd n)" "\<forall>c \<in> set n. \<not> is_sep c"
    by (auto simp: valid_name_def)
  have 1: "filename (q @ n) = filename q @ n" for q
    using n(3) takeWhile_all_append [of "rev n" "\<lambda>c. \<not> is_sep c" "rev q"]
    by (simp add: filename_def)
  have 2: "filename (q @ ''/'') = []" for q
    by (simp add: filename_def is_sep_def)
  show ?thesis
  proof (cases "filename p = []")
    case True
    with n 1 [of p] show ?thesis by (simp add: append_path_def)
  next
    case False
    with n 1 [of "p @ ''/''"] 2 [of p] show ?thesis by (simp add: append_path_def)
  qed
qed

lemma dropWhile_all_append:
  "\<forall>x \<in> set xs. P x \<Longrightarrow> dropWhile P (xs @ ys) = dropWhile P ys"
  by (induction xs) auto

lemma filename_last: "filename p \<noteq> [] \<longleftrightarrow> p \<noteq> [] \<and> \<not> is_sep (last p)"
  by (cases p rule: rev_cases) (simp_all add: filename_def)

lemma parent_path_append:
  assumes "filename d \<noteq> []" "\<forall>c \<in> set n. \<not> is_sep c"
  shows "parent_path (append_path d n) = d"
proof -
  from assms(1) have d: "d \<noteq> []" "\<not> is_sep (last d)" by (simp_all add: filename_last)
  from assms have ap: "append_path d n = d @ CHR ''/'' # n"
    by (cases n) (simp_all add: append_path_def)
  from d have notall: "\<not> (\<forall>c \<in> set (d @ CHR ''/'' # n). is_sep c)"
    using last_in_set by fastforce
  have sep: "is_sep (CHR ''/'')" by (simp add: is_sep_def)
  have "dropWhile (\<lambda>c. \<not> is_sep c) (rev n @ CHR ''/'' # rev d) = CHR ''/'' # rev d"
    using assms(2) sep dropWhile_all_append [of "rev n" "\<lambda>c. \<not> is_sep c" "CHR ''/'' # rev d"]
    by simp
  then have q: "rev (dropWhile (\<lambda>c. \<not> is_sep c) (rev (d @ CHR ''/'' # n))) = d @ ''/''"
    by simp
  have "dropWhile is_sep (rev d) = rev d"
    using d by (cases d rule: rev_cases) simp_all
  then have r: "rev (dropWhile is_sep (rev (d @ ''/''))) = d"
    using sep by simp
  show ?thesis
    unfolding ap parent_path_def Let_def q r using notall d by simp
qed

lemma components_trailing_seps:
  "\<forall>c \<in> set s. is_sep c \<Longrightarrow> components (r @ s) = components r"
proof (induction s rule: rev_induct)
  case Nil
  then show ?case by simp
next
  case (snoc c s)
  then have c: "is_sep c" and IH: "components (r @ s) = components r" by simp_all
  have "split_seps ((r @ s) @ [c]) = split_seps (r @ s) @ [[]]"
    by (subst split_seps_append) (simp add: c)
  then show ?case using IH by (simp add: components_def)
qed

lemma components_all_seps: "\<forall>c \<in> set s. is_sep c \<Longrightarrow> components s = []"
  using components_trailing_seps [of s "[]"] by (simp add: components_def)

lemma filename_rev_dropWhile: "filename (rev (dropWhile (\<lambda>c. \<not> is_sep c) xs)) = []"
  by (induction xs) (auto simp: filename_def)

lemma rev_split_while: "rev (dropWhile P (rev p)) @ rev (takeWhile P (rev p)) = p"
proof -
  have "rev (takeWhile P (rev p) @ dropWhile P (rev p)) = p"
    by (simp only: takeWhile_dropWhile_id rev_rev_ident)
  then show ?thesis by (simp only: rev_append)
qed

lemma components_butlast:
  assumes "last (split_seps x) = []"
  shows "components x = filter (\<lambda>w. w \<noteq> []) (butlast (split_seps x))"
proof -
  have "filter (\<lambda>w. w \<noteq> []) (butlast (split_seps x) @ [last (split_seps x)])
      = filter (\<lambda>w. w \<noteq> []) (butlast (split_seps x))"
    using assms by simp
  then show ?thesis
    unfolding components_def by (simp only: append_butlast_last_id [OF split_seps_nonempty])
qed

lemma components_split_filename:
  assumes "filename p \<noteq> []"
  shows "components p = components (parent_path p) @ [filename p]"
proof -
  define f where "f = filename p"
  define q where "q = rev (dropWhile (\<lambda>c. \<not> is_sep c) (rev p))"
  define s where "s = rev (takeWhile is_sep (rev q))"
  define r where "r = rev (dropWhile is_sep (rev q))"
  have p: "p = q @ f"
    unfolding q_def f_def filename_def by (rule rev_split_while [symmetric])
  have fq: "filename q = []"
    unfolding q_def by (rule filename_rev_dropWhile)
  then have lq: "last (split_seps q) = []" by (simp add: last_split_seps)
  have sf: "split_seps f = [f]"
    unfolding f_def by (rule split_seps_plain) (rule filename_no_sep)
  have "split_seps (q @ f) = butlast (split_seps q) @ [f]"
    using lq sf by (simp add: split_seps_append [of q f])
  then have "components (q @ f) = components q @ [f]"
    using assms components_butlast [OF lq] by (simp add: components_def f_def)
  then have cp: "components p = components q @ [f]"
    using p by simp
  have q: "q = r @ s"
    unfolding r_def s_def by (rule rev_split_while [symmetric])
  have "\<forall>c \<in> set s. is_sep c"
    unfolding s_def using set_takeWhileD by fastforce
  then have cq: "components q = components r"
    using components_trailing_seps [of s r] q by simp
  from assms have notall: "\<not> (\<forall>c \<in> set p. is_sep c)"
    using filename_last [of p] last_in_set by fastforce
  have "parent_path p =
      (let q = rev (dropWhile (\<lambda>c. \<not> is_sep c) (rev p));
           r = rev (dropWhile is_sep (rev q))
       in if r = [] \<and> q \<noteq> [] then ''/'' else r)"
    unfolding parent_path_def by (rule if_not_P [OF notall])
  then have pp: "parent_path p = (if r = [] \<and> q \<noteq> [] then ''/'' else r)"
    unfolding Let_def q_def r_def .
  have "components ''/'' = []" by (simp add: components_def is_sep_def)
  moreover have "r = [] \<Longrightarrow> components q = []" using cq by (simp add: components_def)
  ultimately have "components (parent_path p) = components q"
    using cq pp by auto
  with cp show ?thesis by (simp add: f_def)
qed

lemma decimal_chars: "set (decimal n) \<subseteq> set ''0123456789''"
proof (induction n rule: decimal.induct)
  case (1 n)
  have d: "''0123456789'' ! k \<in> set ''0123456789''" if "k < 10" for k
    using that nth_mem [of k "''0123456789''"] by simp
  show ?case
  proof (cases "n < 10")
    case True
    with d [of n] show ?thesis by (subst decimal.simps) simp
  next
    case False
    with "1.IH" d [of "n mod 10"] show ?thesis by (subst decimal.simps) simp
  qed
qed

lemma to_string_no_sep: "\<forall>c \<in> set (to_string i). \<not> is_sep c"
  using decimal_chars [of "nat i"] decimal_chars [of "nat (- i)"]
  by (auto simp: to_string_def is_sep_def)

lemma stem_subset: "set (stem p) \<subseteq> set (filename p)"
  by (auto simp: stem_def split: option.splits dest: in_set_takeD)

lemma extension_subset: "set (extension p) \<subseteq> set (filename p)"
  by (auto simp: extension_def split: option.splits dest: in_set_dropD)

lemma numbered_name_no_sep:
  "\<forall>c \<in> set (numbered_name (stem f) (extension f) k). \<not> is_sep c"
  using stem_subset [of f] extension_subset [of f] filename_no_sep [of f] to_string_no_sep [of k]
  by (auto simp: numbered_name_def is_sep_def)

section \<open>Renaming\<close>

lemma fs_rename_success:
  assumes "fs_rename fs old_p new_p = Inr fs'" "components old_p \<noteq> components new_p"
  shows "\<exists>src a kids.
           lookup (tree fs) (components old_p) = Some src
         \<and> \<not> prefix (components old_p) (components new_p)
         \<and> lookup (tree fs) (butlast (components new_p)) = Some (Dir a kids)
         \<and> (lookup (tree fs) (components new_p) = None
              \<or> (\<exists>x y. src = File x \<and> lookup (tree fs) (components new_p) = Some (File y))
              \<or> (\<exists>b ks b'. src = Dir b ks
                    \<and> lookup (tree fs) (components new_p) = Some (Dir b' [])))
         \<and> fs' = fs\<lparr>tree := put (components new_p) src (del (components old_p) (tree fs))\<rparr>"
proof -
  from assms obtain src where src: "lookup (tree fs) (components old_p) = Some src"
    and nf: "faults fs (Op_rename old_p new_p) = None"
    by (auto simp: fs_rename_def Let_def split: option.splits if_splits)
  from assms src nf have ne: "old_p \<noteq> []" "new_p \<noteq> []"
    and nd: "\<not> (case src of File x \<Rightarrow> is_sep (last old_p) \<or> is_sep (last new_p)
               | Dir b ks \<Rightarrow> False)"
    by (auto simp: fs_rename_def Let_def split: if_splits)
  from assms src nf ne nd have np: "\<not> prefix (components old_p) (components new_p)"
    by (auto simp: fs_rename_def Let_def split: if_splits)
  from assms src nf ne nd np obtain a kids where
    par: "lookup (tree fs) (butlast (components new_p)) = Some (Dir a kids)"
    by (auto simp: fs_rename_def Let_def split: option.splits node.splits)
  from assms src nf ne nd np par have rest:
    "(case (src, lookup (tree fs) (components new_p)) of
        (File x, Some (Dir b ks)) \<Rightarrow> Inl EISDIR
      | (Dir b ks, Some (File x)) \<Rightarrow> Inl ENOTDIR
      | (Dir b ks, Some (Dir b' (k # ks'))) \<Rightarrow> Inl ENOTEMPTY
      | _ \<Rightarrow> Inr (fs\<lparr>tree := put (components new_p) src (del (components old_p) (tree fs))\<rparr>))
     = Inr fs'"
    by (simp add: fs_rename_def Let_def)
  then have "(lookup (tree fs) (components new_p) = None
              \<or> (\<exists>x y. src = File x \<and> lookup (tree fs) (components new_p) = Some (File y))
              \<or> (\<exists>b ks b'. src = Dir b ks
                    \<and> lookup (tree fs) (components new_p) = Some (Dir b' [])))
         \<and> fs' = fs\<lparr>tree := put (components new_p) src (del (components old_p) (tree fs))\<rparr>"
    by (cases src; cases "lookup (tree fs) (components new_p)")
       (auto split: node.splits list.splits)
  with src np par show ?thesis by blast
qed



lemma fs_rename_plain:
  assumes "fs_rename fs old_p new_p = Inr fs'"
    and "lookup (tree fs) (components old_p) = Some (File x)"
  shows "old_p \<noteq> [] \<and> new_p \<noteq> [] \<and> \<not> is_sep (last old_p) \<and> \<not> is_sep (last new_p)"
  using assms by (auto simp: fs_rename_def Let_def split: option.splits if_splits)

lemma fs_rename_free_target:
  assumes "faults fs (Op_rename old_p new_p) = None"
    and "lookup (tree fs) (components old_p) = Some src"
    and "\<not> prefix (components old_p) (components new_p)"
    and "lookup (tree fs) (butlast (components new_p)) = Some (Dir a ks)"
    and "lookup (tree fs) (components new_p) = None"
    and "old_p \<noteq> []" "new_p \<noteq> []"
    and "\<forall>x. src = File x \<longrightarrow> \<not> is_sep (last old_p) \<and> \<not> is_sep (last new_p)"
  shows "\<exists>fs1. fs_rename fs old_p new_p = Inr fs1"
  using assms by (cases src) (auto simp: fs_rename_def Let_def)

section \<open>Samples of the catalogs\<close>

lemma canonical_names_valid: "\<forall>c \<in> CANONICAL_NAMES. valid_name c"
  unfolding CANONICAL_NAMES_eq CATEGORY_EXTENSION_MAP_def
  by (simp add: valid_name_def is_sep_def)

lemma category_valid: "valid_name (classify_file_by_extension p)"
proof -
  have "valid_name ''Others''" by (simp add: valid_name_def is_sep_def)
  moreover have "classify_file_by_extension p = ''Others''
      \<or> classify_file_by_extension p \<in> CANONICAL_NAMES"
    using classify_range [of p] by (simp only: insert_iff)
  ultimately show ?thesis using canonical_names_valid by metis
qed

lemma alias_empty: "ALIAS_LOOKUP [] = None"
  unfolding ALIAS_LOOKUP_def
  by (rule invert_catalog_none) (simp add: CATEGORY_ALIAS_MAP_def)

lemma alias_Pics: "ALIAS_LOOKUP ''Pics'' = None"
  unfolding ALIAS_LOOKUP_def
  by (rule invert_catalog_none) (simp add: CATEGORY_ALIAS_MAP_def)

lemma alias_pics: "ALIAS_LOOKUP ''pics'' = Some ''Image Files''"
  unfolding ALIAS_LOOKUP_def invert_catalog_apply CATEGORY_ALIAS_MAP_def by simp

lemma alias_private: "ALIAS_LOOKUP ''private'' = None"
  unfolding ALIAS_LOOKUP_def
  by (rule invert_catalog_none) (simp add: CATEGORY_ALIAS_MAP_def)

lemma extension_png: "EXTENSION_LOOKUP ''png'' = Some ''Image Files''"
  unfolding EXTENSION_LOOKUP_def invert_catalog_apply CATEGORY_EXTENSION_MAP_def by simp

lemma extension_pdf: "EXTENSION_LOOKUP ''pdf'' = Some ''PDF Files''"
  unfolding EXTENSION_LOOKUP_def invert_catalog_apply CATEGORY_EXTENSION_MAP_def by simp

lemma canonical_samples:
  "''Pics'' \<notin> CANONICAL_NAMES" "''private'' \<notin> CANONICAL_NAMES"
  "''Image Files'' \<in> CANONICAL_NAMES" "''Word Files'' \<in> CANONICAL_NAMES"
  "''PDF Files'' \<in> CANONICAL_NAMES"
  unfolding CANONICAL_NAMES_eq CATEGORY_EXTENSION_MAP_def by simp_all

lemma alias_keys_lowercase:
  "\<forall>a \<in> set (concat (map snd CATEGORY_ALIAS_MAP)). lowercase a = a"
  by code_simp

lemma alias_lookup_lowercase:
  assumes "ALIAS_LOOKUP a = Some c"
  shows "lowercase a = a"
proof -
  from assms obtain es where "(c, es) \<in> set CATEGORY_ALIAS_MAP" "a \<in> set es"
    unfolding ALIAS_LOOKUP_def by (blast dest: invert_catalog_some)
  then have "a \<in> set (concat (map snd CATEGORY_ALIAS_MAP))" by force
  with alias_keys_lowercase show ?thesis by blast
qed

lemma alias_capitalised:
  "ALIAS_LOOKUP ''Word Files'' = None" "ALIAS_LOOKUP ''Image Files'' = None"
proof -
  have "lowercase ''Word Files'' \<noteq> ''Word Files''" "lowercase ''Image Files'' \<noteq> ''Image Files''"
    by (simp_all add: lowercase_def tolower_def)
  then show "ALIAS_LOOKUP ''Word Files'' = None" "ALIAS_LOOKUP ''Image Files'' = None"
    using alias_lookup_lowercase by fastforce+
qed

lemma alias_photos: "ALIAS_LOOKUP ''photos'' = Some ''Image Files''"
  unfolding ALIAS_LOOKUP_def invert_catalog_apply CATEGORY_ALIAS_MAP_def by simp

lemma canonical_samples_lower:
  "''pics'' \<notin> CANONICAL_NAMES" "''photos'' \<notin> CANONICAL_NAMES"
  unfolding CANONICAL_NAMES_eq CATEGORY_EXTENSION_MAP_def by simp_all

section \<open>Resolving a path\<close>

lemma resolve_plain: "filename p \<noteq> [] \<Longrightarrow> resolve fs p = lookup (tree fs) (components p)"
  by (auto simp: resolve_def filename_last split: option.splits node.splits)

lemma resolve_file:
  "resolve fs p = Some (File x)
     \<longleftrightarrow> filename p \<noteq> [] \<and> lookup (tree fs) (components p) = Some (File x)"
  by (auto simp: resolve_def filename_last split: option.splits node.splits if_splits)

lemma resolve_dir:
  "resolve fs p = Some (Dir a ks) \<Longrightarrow> lookup (tree fs) (components p) = Some (Dir a ks)"
  by (auto simp: resolve_def split: option.splits node.splits if_splits)

lemma resolve_lookup_none: "lookup (tree fs) (components p) = None \<Longrightarrow> resolve fs p = None"
  by (simp add: resolve_def)

lemma fs_exists_resolve: "fs_exists fs p = Inr b \<Longrightarrow> b \<longleftrightarrow> resolve fs p \<noteq> None"
  by (auto simp: fs_exists_def fs_status_def split: option.splits sum.splits)

section \<open>Unique destination names\<close>

lemma unique_loop_first_free:
  assumes "counter \<le> n" "n < INT_MAX"
    and "\<forall>k. counter \<le> k \<and> k < n
           \<longrightarrow> fs_exists fs (append_path d (numbered_name s e k)) = Inr True"
    and "fs_exists fs (append_path d (numbered_name s e n)) = Inr False"
  shows "unique_loop fs d s e counter = Inr (append_path d (numbered_name s e n))"
  using assms
proof (induction "nat (n - counter)" arbitrary: counter)
  case 0
  then have "counter = n" by simp
  with "0.prems" show ?case by (subst unique_loop.simps) (simp add: Let_def)
next
  case (Suc m)
  then have lt: "counter < n" by linarith
  with Suc.prems have ex: "fs_exists fs (append_path d (numbered_name s e counter)) = Inr True"
    by simp
  have "unique_loop fs d s e (counter + 1) = Inr (append_path d (numbered_name s e n))"
  proof (rule Suc.hyps(1))
    show "m = nat (n - (counter + 1))" using Suc.hyps(2) by linarith
    show "counter + 1 \<le> n" using lt by simp
    show "n < INT_MAX" by fact
    show "\<forall>k. counter + 1 \<le> k \<and> k < n
           \<longrightarrow> fs_exists fs (append_path d (numbered_name s e k)) = Inr True"
      using Suc.prems(3) by simp
    show "fs_exists fs (append_path d (numbered_name s e n)) = Inr False" by fact
  qed
  moreover have "\<not> INT_MAX \<le> counter" using lt Suc.prems(2) by simp
  ultimately show ?case using ex by (subst unique_loop.simps) (simp add: Let_def)
qed

lemma unique_loop_result:
  "unique_loop fs d s e counter = Inr u
     \<Longrightarrow> (\<exists>k. u = append_path d (numbered_name s e k)) \<and> fs_exists fs u = Inr False"
proof (induction "nat (INT_MAX - counter)" arbitrary: counter rule: less_induct)
  case less
  let ?c = "append_path d (numbered_name s e counter)"
  from less.prems have lt: "\<not> INT_MAX \<le> counter"
    by (subst (asm) unique_loop.simps) (simp add: Let_def split: if_splits)
  from less.prems lt obtain found where ex: "fs_exists fs ?c = Inr found"
    by (subst (asm) unique_loop.simps) (auto simp: Let_def split: sum.splits)
  show ?case
  proof (cases found)
    case True
    with lt ex less.prems have "unique_loop fs d s e (counter + 1) = Inr u"
      by (subst (asm) unique_loop.simps) (simp add: Let_def)
    moreover from lt have "nat (INT_MAX - (counter + 1)) < nat (INT_MAX - counter)" by simp
    ultimately show ?thesis using less.hyps by blast
  next
    case False
    with lt ex less.prems have "u = ?c" by (subst (asm) unique_loop.simps) (simp add: Let_def)
    with ex False show ?thesis by auto
  qed
qed

lemma get_unique_path_shape:
  assumes "get_unique_path fs d f = Inr u"
  shows "u = append_path d f \<or> (\<exists>k. u = append_path d (numbered_name (stem f) (extension f) k))"
  using assms unique_loop_result [of fs d "stem f" "extension f" 1 u]
  by (auto simp: get_unique_path_def Let_def split: if_splits sum.splits)

lemma get_unique_path_free:
  assumes "get_unique_path fs d f = Inr u"
  shows "fs_exists fs u = Inr False" and "resolve fs u = None"
proof -
  from assms unique_loop_result [of fs d "stem f" "extension f" 1 u]
  show "fs_exists fs u = Inr False"
    by (auto simp: get_unique_path_def Let_def split: if_splits sum.splits)
  from fs_exists_resolve [OF this] show "resolve fs u = None" by simp
qed

lemma numbered_name_valid: "valid_name (numbered_name (stem f) (extension f) k)"
  using numbered_name_no_sep [of f k] by (simp add: valid_name_def numbered_name_def)

text \<open>The path generated for a file is the destination directory followed by a name.\<close>

lemma get_unique_path_name:
  assumes "get_unique_path fs d (filename src) = Inr u" "filename src \<noteq> []"
  shows "\<exists>n. valid_name n \<and> u = append_path d n"
proof -
  from assms(2) have "valid_name (filename src)"
    using filename_no_sep [of src] by (simp add: valid_name_def)
  with get_unique_path_shape [OF assms(1)] numbered_name_valid show ?thesis by blast
qed

lemma get_unique_path_plain:
  assumes "get_unique_path fs d (filename src) = Inr u" "filename src \<noteq> []"
  shows "filename u \<noteq> []" and "components u = components d @ [filename u]"
proof -
  from get_unique_path_name [OF assms] obtain n where n: "valid_name n" "u = append_path d n"
    by blast
  then have f: "filename u = n" by (simp add: filename_append_name)
  with n show "filename u \<noteq> []" by (simp add: valid_name_def)
  from n f show "components u = components d @ [filename u]"
    by (simp add: components_append_name)
qed

section \<open>Moving a file\<close>

lemma strict_prefix_butlast: "prefix q p \<Longrightarrow> q \<noteq> p \<Longrightarrow> prefix q (butlast p)"
  by (auto simp: prefix_def butlast_append)

lemma lookup_not_below_file:
  assumes "lookup t q = Some (File x)" "lookup t p = Some n" "p \<noteq> q"
  shows "\<not> prefix q p"
  using assms lookup_below_file by fastforce

lemma rename_file_effect:
  assumes ren: "fs_rename fs src u = Inr fs'"
    and src: "resolve fs src = Some (File x)"
    and free: "resolve fs u = None"
  shows "resolve fs' u = Some (File x)"
    and "resolve fs' src = None"
    and "faults fs' = faults fs"
    and "\<And>p y. resolve fs p = Some (File y) \<Longrightarrow> components p \<noteq> components src
           \<Longrightarrow> resolve fs' p = Some (File y)"
proof -
  let ?t = "tree fs" and ?o = "components src" and ?n = "components u"
  from src have o: "lookup ?t ?o = Some (File x)" by (simp add: resolve_file)
  from fs_rename_plain [OF ren o] have plain: "filename u \<noteq> []" by (simp add: filename_last)
  from free have n: "lookup ?t ?n = None" by (simp add: resolve_plain [OF plain])
  from o n have ne: "?o \<noteq> ?n" by auto
  from fs_rename_success [OF ren ne] o obtain a kids where
    par: "lookup ?t (butlast ?n) = Some (Dir a kids)"
    and no_on: "\<not> prefix ?o ?n"
    and fs': "fs' = fs\<lparr>tree := put ?n (File x) (del ?o ?t)\<rparr>"
    by auto
  from n have nn: "?n \<noteq> []" by (cases ?n) auto
  from o par have on: "?o \<noteq> []"
    by (cases ?o) (auto simp: lookup_File split: if_splits)
  have no_no: "\<not> prefix ?n ?o"
    using lookup_prefix_exists [OF o, of ?n] n by auto
  have "\<not> prefix ?o (butlast ?n)"
    using no_on prefixeq_butlast [of ?n] by (meson prefix_order.trans)
  with par obtain kids' where par': "lookup (del ?o ?t) (butlast ?n) = Some (Dir a kids')"
    using lookup_del_dir by blast
  show "faults fs' = faults fs" by (simp add: fs')
  show "resolve fs' u = Some (File x)"
    using lookup_put_same [OF nn par'] by (simp add: fs' resolve_plain [OF plain])
  have "lookup (del ?o ?t) ?o = None"
    using lookup_del_under [OF on, of ?o] by simp
  then have "lookup (tree fs') ?o = None"
    using lookup_put_frame [OF no_no no_on] by (simp add: fs')
  then show "resolve fs' src = None" by (rule resolve_lookup_none)
  fix p y
  assume p: "resolve fs p = Some (File y)" and d: "components p \<noteq> components src"
  then have lp: "lookup ?t (components p) = Some (File y)" and pp: "filename p \<noteq> []"
    by (simp_all add: resolve_file)
  have 1: "\<not> prefix ?o (components p)"
    using lookup_not_below_file [OF o lp d] .
  have 2: "\<not> prefix ?n (components p)"
    using lookup_prefix_exists [OF lp, of ?n] n by auto
  from lookup_del_file [OF lp 1] have "lookup (del ?o ?t) (components p) = Some (File y)" .
  from lookup_put_file [OF this 2] pp show "resolve fs' p = Some (File y)"
    by (simp add: fs' resolve_file)
qed

lemma copy_file_effect:
  assumes cp: "fs_copy_file fs src u = Inr fs1"
    and free: "resolve fs u = None"
  shows "\<exists>x. resolve fs src = Some (File x) \<and> resolve fs1 u = Some (File x)
           \<and> fs1 = fs\<lparr>tree := put (components u) (File x) (tree fs)\<rparr>"
    and "faults fs1 = faults fs"
    and "\<And>p y. resolve fs p = Some (File y) \<Longrightarrow> resolve fs1 p = Some (File y)"
proof -
  let ?t = "tree fs" and ?o = "components src" and ?n = "components u"
  from cp have ends: "src \<noteq> []" "u \<noteq> []" "\<not> is_sep (last src)" "\<not> is_sep (last u)"
    by (auto simp: fs_copy_file_def split: option.splits if_splits node.splits)
  then have plain: "filename src \<noteq> []" "filename u \<noteq> []" by (simp_all add: filename_last)
  from free have n: "lookup ?t ?n = None" by (simp add: resolve_plain [OF plain(2)])
  from cp n ends obtain x a kids where
    o: "lookup ?t ?o = Some (File x)"
    and par: "lookup ?t (butlast ?n) = Some (Dir a kids)"
    and fs1: "fs1 = fs\<lparr>tree := put ?n (File x) ?t\<rparr>"
    by (auto simp: fs_copy_file_def split: option.splits if_splits node.splits)
  from n have nn: "?n \<noteq> []" by (cases ?n) auto
  show "faults fs1 = faults fs" by (simp add: fs1)
  show "\<exists>x. resolve fs src = Some (File x) \<and> resolve fs1 u = Some (File x)
           \<and> fs1 = fs\<lparr>tree := put (components u) (File x) (tree fs)\<rparr>"
    using o lookup_put_same [OF nn par] fs1 plain by (simp add: resolve_file)
  fix p y
  assume "resolve fs p = Some (File y)"
  then have lp: "lookup ?t (components p) = Some (File y)" and pp: "filename p \<noteq> []"
    by (simp_all add: resolve_file)
  have "\<not> prefix ?n (components p)"
    using lookup_prefix_exists [OF lp, of ?n] n by auto
  from lookup_put_file [OF lp this] pp show "resolve fs1 p = Some (File y)"
    by (simp add: fs1 resolve_file)
qed

lemma remove_file_effect:
  assumes rm: "fs_remove fs1 src = Inr (removed, fs2)"
    and src: "resolve fs1 src = Some (File x)"
  shows "resolve fs2 src = None"
    and "faults fs2 = faults fs1"
    and "\<And>p y. resolve fs1 p = Some (File y) \<Longrightarrow> components p \<noteq> components src
           \<Longrightarrow> resolve fs2 p = Some (File y)"
proof -
  let ?t = "tree fs1" and ?o = "components src"
  from src have o: "lookup ?t ?o = Some (File x)"
    and ends: "src \<noteq> []" "\<not> is_sep (last src)"
    by (simp_all add: resolve_file filename_last)
  with rm have fs2: "fs2 = fs1\<lparr>tree := del ?o ?t\<rparr>"
    by (auto simp: fs_remove_def split: option.splits if_splits)
  show "faults fs2 = faults fs1" by (simp add: fs2)
  from src have "?o \<noteq> []"
    using components_split_filename [of src] by (simp add: resolve_file)
  then have "lookup (tree fs2) ?o = None"
    using lookup_del_under [of ?o ?o ?t] by (simp add: fs2)
  then show "resolve fs2 src = None" by (rule resolve_lookup_none)
  fix p y
  assume "resolve fs1 p = Some (File y)" and d: "components p \<noteq> components src"
  then have lp: "lookup ?t (components p) = Some (File y)" and pp: "filename p \<noteq> []"
    by (simp_all add: resolve_file)
  from lookup_del_file [OF lp lookup_not_below_file [OF o lp d]] pp
  show "resolve fs2 p = Some (File y)" by (simp add: fs2 resolve_file)
qed

lemmas path_eval =
  resolve_def components_def fs_status_def fs_exists_def fs_is_directory_def
  fs_is_regular_file_def entry_is_directory_def
  append_path_def filename_def parent_path_def is_sep_def stem_def extension_def
  find_extension_def numbered_name_def to_string_def decimal.simps INT_MAX_def Let_def

text \<open>What a successful transfer has done.\<close>

lemma transfer_lands:
  assumes src: "resolve fs src = Some (File x)"
    and mv: "atomic_file_transfer fs src d = Inr (successful_transfer, fs')
             \<or> fallback_transfer fs src d = Inr (successful_transfer, fs')"
  shows "\<exists>u. get_unique_path fs d (filename src) = Inr u \<and> resolve fs u = None
           \<and> resolve fs' u = Some (File x) \<and> resolve fs' src = None
           \<and> (\<forall>p y. resolve fs p = Some (File y) \<and> components p \<noteq> components src
                 \<longrightarrow> resolve fs' p = Some (File y))"
  using mv
proof
  assume "atomic_file_transfer fs src d = Inr (successful_transfer, fs')"
  then obtain u where u: "get_unique_path fs d (filename src) = Inr u"
    and ren: "fs_rename fs src u = Inr fs'"
    by (auto simp: atomic_file_transfer_def atomic_handler_def
        split: sum.splits if_splits abnormal.splits)
  from u have free: "resolve fs u = None" by (rule get_unique_path_free)
  from rename_file_effect [OF ren src free] u free show ?thesis by blast
next
  assume "fallback_transfer fs src d = Inr (successful_transfer, fs')"
  then obtain u fs1 removed where u: "get_unique_path fs d (filename src) = Inr u"
    and cp: "fs_copy_file fs src u = Inr fs1"
    and rm: "fs_remove fs1 src = Inr (removed, fs')"
    by (auto simp: fallback_transfer_def fallback_handler_def
        split: sum.splits if_splits abnormal.splits)
  from u have free: "resolve fs u = None" by (rule get_unique_path_free)
  note c = copy_file_effect [OF cp free]
  from c(3) [OF src] have src1: "resolve fs1 src = Some (File x)" .
  note r = remove_file_effect [OF rm src1]
  from c(1) src have u1: "resolve fs1 u = Some (File x)" by auto
  from u1 free have "lookup (tree fs) (components u) = None"
    by (simp add: resolve_file resolve_plain)
  with src have ne: "components u \<noteq> components src"
    by (auto simp: resolve_file)
  from r(3) [OF u1 ne] have "resolve fs' u = Some (File x)" .
  moreover have "\<forall>p y. resolve fs p = Some (File y) \<and> components p \<noteq> components src
                 \<longrightarrow> resolve fs' p = Some (File y)"
    using c(3) r(3) by blast
  ultimately show ?thesis using u free r(1) by blast
qed

text \<open>
  When a transfer succeeds: the source is a regular file, the destination directory
  exists, a name has been generated, and the library calls are not made to fail.
\<close>

lemma move_target_facts:
  assumes src: "resolve fs src = Some (File x)"
    and dir: "resolve fs d = Some (Dir a kids)"
    and u: "get_unique_path fs d (filename src) = Inr u"
  shows "lookup (tree fs) (components src) = Some (File x)"
    and "src \<noteq> [] \<and> \<not> is_sep (last src) \<and> u \<noteq> [] \<and> \<not> is_sep (last u)"
    and "lookup (tree fs) (butlast (components u)) = Some (Dir a kids)"
    and "lookup (tree fs) (components u) = None"
    and "\<not> prefix (components src) (components u)"
    and "\<not> prefix (components u) (components src)"
    and "components src \<noteq> []"
proof -
  let ?t = "tree fs" and ?o = "components src" and ?n = "components u"
  from src have ps: "filename src \<noteq> []" by (simp add: resolve_file)
  from src show o: "lookup ?t ?o = Some (File x)" by (simp add: resolve_file)
  note pu = get_unique_path_plain [OF u ps]
  from ps pu(1) show "src \<noteq> [] \<and> \<not> is_sep (last src) \<and> u \<noteq> [] \<and> \<not> is_sep (last u)"
    by (simp add: filename_last)
  from pu(2) dir show par: "lookup ?t (butlast ?n) = Some (Dir a kids)"
    by (simp add: resolve_dir)
  from get_unique_path_free(2) [OF u] show n: "lookup ?t ?n = None"
    by (simp add: resolve_plain [OF pu(1)])
  show "\<not> prefix ?o ?n"
  proof
    assume p: "prefix ?o ?n"
    from o n have "?o \<noteq> ?n" by auto
    with p have "prefix ?o (butlast ?n)" by (rule strict_prefix_butlast)
    with o par lookup_below_file [OF o this] show False by (cases "butlast ?n = ?o") auto
  qed
  show "\<not> prefix ?n ?o" using lookup_prefix_exists [OF o, of ?n] n by auto
  show "?o \<noteq> []" using components_split_filename [OF ps] by simp
qed

lemma atomic_file_transfer_succeeds:
  assumes src: "resolve fs src = Some (File x)"
    and dir: "resolve fs d = Some (Dir a kids)"
    and u: "get_unique_path fs d (filename src) = Inr u"
    and nf: "faults fs (Op_rename src u) = None"
  shows "\<exists>fs'. atomic_file_transfer fs src d = Inr (successful_transfer, fs')"
proof -
  note f = move_target_facts [OF src dir u]
  from fs_rename_free_target [OF nf f(1) f(5) f(3) f(4)] f(2)
  obtain fs1 where "fs_rename fs src u = Inr fs1" by auto
  with u show ?thesis by (simp add: atomic_file_transfer_def)
qed

lemma fallback_transfer_succeeds:
  assumes src: "resolve fs src = Some (File x)"
    and dir: "resolve fs d = Some (Dir a kids)"
    and u: "get_unique_path fs d (filename src) = Inr u"
    and nf: "faults fs (Op_copy_file src u) = None" "faults fs (Op_remove src) = None"
  shows "\<exists>fs'. fallback_transfer fs src d = Inr (successful_transfer, fs')"
proof -
  let ?fs1 = "fs\<lparr>tree := put (components u) (File x) (tree fs)\<rparr>"
  note f = move_target_facts [OF src dir u]
  from f(1,4) have ne: "components src \<noteq> components u" by auto
  have cp: "fs_copy_file fs src u = Inr ?fs1"
    using f(1-4) nf(1) ne by (simp add: fs_copy_file_def)
  have "lookup (tree ?fs1) (components src) = Some (File x)"
    using lookup_put_file [OF f(1) f(6)] by simp
  then have "fs_remove ?fs1 src = Inr (True, ?fs1\<lparr>tree := del (components src) (tree ?fs1)\<rparr>)"
    using f(2,7) nf(2) by (simp add: fs_remove_def)
  with u cp show ?thesis by (simp add: fallback_transfer_def)
qed

section \<open>Collision-safe naming\<close>

text \<open>
  Claim C1.  As long as the existence checks of \<open>get_unique_path\<close> succeed, it returns
  \<open>destination_dir / filename\<close> when nothing exists there, and otherwise the first free
  \<open>stem(n)ext\<close>, \<open>n = 1, 2, \<dots>\<close>, for \<open>n\<close> below \<open>INT_MAX\<close> (the counter is an \<open>int\<close>).
  A move, atomic or fallback, of a regular file into an existing directory, for which a
  name has been generated and whose library calls (the rename, or the copy and the
  removal) are not made to fail, returns \<open>successful_transfer\<close>.  A move that returns
  \<open>successful_transfer\<close> has put the bytes of the file at the path so generated, which
  was free before, has removed the file from its old place, and has left every other
  regular file where it was, with its bytes.
\<close>

theorem get_unique_path_collision_safe:
  "(fs_exists fs (append_path d f) = Inr False
      \<longrightarrow> get_unique_path fs d f = Inr (append_path d f))
   \<and> (\<forall>n. fs_exists fs (append_path d f) = Inr True \<and> 1 \<le> n \<and> n < INT_MAX
          \<and> (\<forall>k. 1 \<le> k \<and> k < n
                \<longrightarrow> fs_exists fs (append_path d (numbered_name (stem f) (extension f) k))
                    = Inr True)
          \<and> fs_exists fs (append_path d (numbered_name (stem f) (extension f) n)) = Inr False
        \<longrightarrow> get_unique_path fs d f
              = Inr (append_path d (numbered_name (stem f) (extension f) n)))
   \<and> (\<forall>src x a kids u. resolve fs src = Some (File x) \<and> resolve fs d = Some (Dir a kids)
          \<and> get_unique_path fs d (filename src) = Inr u
        \<longrightarrow> (faults fs (Op_rename src u) = None
               \<longrightarrow> (\<exists>fs'. atomic_file_transfer fs src d = Inr (successful_transfer, fs')))
            \<and> (faults fs (Op_copy_file src u) = None \<and> faults fs (Op_remove src) = None
               \<longrightarrow> (\<exists>fs'. fallback_transfer fs src d = Inr (successful_transfer, fs'))))
   \<and> (\<forall>src x fs'. resolve fs src = Some (File x)
          \<and> (atomic_file_transfer fs src d = Inr (successful_transfer, fs')
               \<or> fallback_transfer fs src d = Inr (successful_transfer, fs'))
        \<longrightarrow> (\<exists>u. get_unique_path fs d (filename src) = Inr u \<and> resolve fs u = None
               \<and> resolve fs' u = Some (File x) \<and> resolve fs' src = None
               \<and> (\<forall>p y. resolve fs p = Some (File y) \<and> components p \<noteq> components src
                     \<longrightarrow> resolve fs' p = Some (File y))))"
proof (intro conjI allI impI)
  assume "fs_exists fs (append_path d f) = Inr False"
  then show "get_unique_path fs d f = Inr (append_path d f)"
    by (simp add: get_unique_path_def)
next
  fix n
  assume a: "fs_exists fs (append_path d f) = Inr True \<and> 1 \<le> n \<and> n < INT_MAX
          \<and> (\<forall>k. 1 \<le> k \<and> k < n
                \<longrightarrow> fs_exists fs (append_path d (numbered_name (stem f) (extension f) k))
                    = Inr True)
          \<and> fs_exists fs (append_path d (numbered_name (stem f) (extension f) n)) = Inr False"
  then have "unique_loop fs d (stem f) (extension f) 1
      = Inr (append_path d (numbered_name (stem f) (extension f) n))"
    by (intro unique_loop_first_free) simp_all
  with a show "get_unique_path fs d f
      = Inr (append_path d (numbered_name (stem f) (extension f) n))"
    by (simp add: get_unique_path_def)
next
  fix src x a kids u
  assume a: "resolve fs src = Some (File x) \<and> resolve fs d = Some (Dir a kids)
          \<and> get_unique_path fs d (filename src) = Inr u"
  assume "faults fs (Op_rename src u) = None"
  with a show "\<exists>fs'. atomic_file_transfer fs src d = Inr (successful_transfer, fs')"
    using atomic_file_transfer_succeeds by blast
next
  fix src x a kids u
  assume a: "resolve fs src = Some (File x) \<and> resolve fs d = Some (Dir a kids)
          \<and> get_unique_path fs d (filename src) = Inr u"
  assume "faults fs (Op_copy_file src u) = None \<and> faults fs (Op_remove src) = None"
  with a show "\<exists>fs'. fallback_transfer fs src d = Inr (successful_transfer, fs')"
    using fallback_transfer_succeeds by blast
next
  fix src x fs'
  assume "resolve fs src = Some (File x)
          \<and> (atomic_file_transfer fs src d = Inr (successful_transfer, fs')
               \<or> fallback_transfer fs src d = Inr (successful_transfer, fs'))"
  then show "\<exists>u. get_unique_path fs d (filename src) = Inr u \<and> resolve fs u = None
               \<and> resolve fs' u = Some (File x) \<and> resolve fs' src = None
               \<and> (\<forall>p y. resolve fs p = Some (File y) \<and> components p \<noteq> components src
                     \<longrightarrow> resolve fs' p = Some (File y))"
    using transfer_lands by blast
qed

lemma collision_probe:
  "fs_exists \<lparr>tree = collision_tree, faults = no_faults\<rparr> ''/r/d/a.txt'' = Inr True"
  "fs_exists \<lparr>tree = collision_tree, faults = no_faults\<rparr> ''/r/d/a(1).txt'' = Inr True"
  "fs_exists \<lparr>tree = collision_tree, faults = no_faults\<rparr> ''/r/d/a(2).txt'' = Inr False"
  "fs_exists \<lparr>tree = collision_tree, faults = no_faults\<rparr> ''/r/d/b.txt'' = Inr False"
  "resolve \<lparr>tree = collision_tree, faults = no_faults\<rparr> ''/r/a.txt'' = Some (File ''new'')"
  "resolve \<lparr>tree = collision_tree, faults = no_faults\<rparr> ''/r/d/a.txt'' = Some (File ''old'')"
  "resolve \<lparr>tree = collision_tree, faults = no_faults\<rparr> ''/r/d''
     = Some (Dir None [(''a.txt'', File ''old''), (''a(1).txt'', File ''older'')])"
  by (simp_all add: path_eval collision_tree_def no_faults_def)

lemma collision_names:
  "append_path ''/r/d'' ''a.txt'' = ''/r/d/a.txt''"
  "append_path ''/r/d'' ''b.txt'' = ''/r/d/b.txt''"
  "append_path ''/r/d'' (numbered_name (stem ''a.txt'') (extension ''a.txt'') 1) = ''/r/d/a(1).txt''"
  "append_path ''/r/d'' (numbered_name (stem ''a.txt'') (extension ''a.txt'') 2) = ''/r/d/a(2).txt''"
  "filename ''/r/a.txt'' = ''a.txt''"
  by (simp_all add: path_eval)

lemma collision_move:
  "atomic_file_transfer \<lparr>tree = collision_tree, faults = no_faults\<rparr> ''/r/a.txt'' ''/r/d''
     = Inr (successful_transfer,
         \<lparr>tree = Dir None [(''r'', Dir None
            [(''d'', Dir None [(''a.txt'', File ''old''), (''a(1).txt'', File ''older''),
               (''a(2).txt'', File ''new'')])])],
          faults = no_faults\<rparr>)"
  "fallback_transfer \<lparr>tree = collision_tree, faults = no_faults\<rparr> ''/r/a.txt'' ''/r/d''
     = Inr (successful_transfer,
         \<lparr>tree = Dir None [(''r'', Dir None
            [(''d'', Dir None [(''a.txt'', File ''old''), (''a(1).txt'', File ''older''),
               (''a(2).txt'', File ''new'')])])],
          faults = no_faults\<rparr>)"
  by (simp_all add: atomic_file_transfer_def fallback_transfer_def get_unique_path_def
      unique_loop.simps fs_rename_def fs_copy_file_def fs_remove_def
      path_eval collision_tree_def no_faults_def)

theorem get_unique_path_collision_safe_witness:
  "get_unique_path \<lparr>tree = collision_tree, faults = no_faults\<rparr> ''/r/d'' ''b.txt''
     = Inr ''/r/d/b.txt''
   \<and> get_unique_path \<lparr>tree = collision_tree, faults = no_faults\<rparr> ''/r/d'' ''a.txt''
     = Inr ''/r/d/a(2).txt''
   \<and> atomic_file_transfer \<lparr>tree = collision_tree, faults = no_faults\<rparr> ''/r/a.txt'' ''/r/d''
     = Inr (successful_transfer,
         \<lparr>tree = Dir None [(''r'', Dir None
            [(''d'', Dir None [(''a.txt'', File ''old''), (''a(1).txt'', File ''older''),
               (''a(2).txt'', File ''new'')])])],
          faults = no_faults\<rparr>)
   \<and> fallback_transfer \<lparr>tree = collision_tree, faults = no_faults\<rparr> ''/r/a.txt'' ''/r/d''
     = Inr (successful_transfer,
         \<lparr>tree = Dir None [(''r'', Dir None
            [(''d'', Dir None [(''a.txt'', File ''old''), (''a(1).txt'', File ''older''),
               (''a(2).txt'', File ''new'')])])],
          faults = no_faults\<rparr>)
   \<and> resolve \<lparr>tree = Dir None [(''r'', Dir None
            [(''d'', Dir None [(''a.txt'', File ''old''), (''a(1).txt'', File ''older''),
               (''a(2).txt'', File ''new'')])])],
          faults = no_faults\<rparr> ''/r/d/a.txt'' = Some (File ''old'')
   \<and> resolve \<lparr>tree = Dir None [(''r'', Dir None
            [(''d'', Dir None [(''a.txt'', File ''old''), (''a(1).txt'', File ''older''),
               (''a(2).txt'', File ''new'')])])],
          faults = no_faults\<rparr> ''/r/d/a(2).txt'' = Some (File ''new'')
   \<and> resolve \<lparr>tree = Dir None [(''r'', Dir None
            [(''d'', Dir None [(''a.txt'', File ''old''), (''a(1).txt'', File ''older''),
               (''a(2).txt'', File ''new'')])])],
          faults = no_faults\<rparr> ''/r/a.txt'' = None"
proof -
  let ?F = "\<lparr>tree = collision_tree, faults = no_faults\<rparr>"
  let ?F' = "\<lparr>tree = Dir None [(''r'', Dir None
            [(''d'', Dir None [(''a.txt'', File ''old''), (''a(1).txt'', File ''older''),
               (''a(2).txt'', File ''new'')])])],
          faults = no_faults\<rparr>"
  let ?kids = "[(''a.txt'', File ''old''), (''a(1).txt'', File ''older'')]"
  note T = get_unique_path_collision_safe [of ?F "''/r/d''" "''a.txt''"]
  note T' = get_unique_path_collision_safe [of ?F "''/r/d''" "''b.txt''"]
  text \<open>a free name is returned unchanged\<close>
  from T' have g1: "get_unique_path ?F ''/r/d'' ''b.txt'' = Inr ''/r/d/b.txt''"
    using collision_probe(4) collision_names(2) by simp
  text \<open>the first free numbered name\<close>
  have k: "\<forall>k::int. 1 \<le> k \<and> k < 2
      \<longrightarrow> fs_exists ?F (append_path ''/r/d'' (numbered_name (stem ''a.txt'') (extension ''a.txt'') k))
          = Inr True"
  proof (intro allI impI)
    fix k :: int
    assume "1 \<le> k \<and> k < 2"
    then have "k = 1" by arith
    then show "fs_exists ?F
        (append_path ''/r/d'' (numbered_name (stem ''a.txt'') (extension ''a.txt'') k)) = Inr True"
      using collision_probe(2) collision_names(3) by simp
  qed
  have h2: "fs_exists ?F (append_path ''/r/d'' ''a.txt'') = Inr True \<and> (1::int) \<le> 2 \<and> 2 < INT_MAX
      \<and> (\<forall>k::int. 1 \<le> k \<and> k < 2
            \<longrightarrow> fs_exists ?F
                 (append_path ''/r/d'' (numbered_name (stem ''a.txt'') (extension ''a.txt'') k))
                = Inr True)
      \<and> fs_exists ?F
           (append_path ''/r/d'' (numbered_name (stem ''a.txt'') (extension ''a.txt'') 2))
          = Inr False"
    using k collision_probe collision_names by (simp add: INT_MAX_def)
  from T h2 have "get_unique_path ?F ''/r/d'' ''a.txt''
      = Inr (append_path ''/r/d'' (numbered_name (stem ''a.txt'') (extension ''a.txt'') 2))"
    by blast
  then have g: "get_unique_path ?F ''/r/d'' ''a.txt'' = Inr ''/r/d/a(2).txt''"
    using collision_names(4) by simp
  text \<open>both transfers succeed\<close>
  have h3: "resolve ?F ''/r/a.txt'' = Some (File ''new'')
      \<and> resolve ?F ''/r/d'' = Some (Dir None ?kids)
      \<and> get_unique_path ?F ''/r/d'' (filename ''/r/a.txt'') = Inr ''/r/d/a(2).txt''"
    using collision_probe(5,7) g collision_names(5) by simp
  have nf: "faults ?F (Op_rename ''/r/a.txt'' ''/r/d/a(2).txt'') = None"
    "faults ?F (Op_copy_file ''/r/a.txt'' ''/r/d/a(2).txt'') = None
       \<and> faults ?F (Op_remove ''/r/a.txt'') = None"
    by (simp_all add: no_faults_def)
  from T h3 nf(1) obtain fa where
    fa: "atomic_file_transfer ?F ''/r/a.txt'' ''/r/d'' = Inr (successful_transfer, fa)"
    by blast
  from T h3 nf(2) obtain fb where
    fb: "fallback_transfer ?F ''/r/a.txt'' ''/r/d'' = Inr (successful_transfer, fb)"
    by blast
  from fa fb collision_move have eq: "fa = ?F'" "fb = ?F'" by simp_all
  text \<open>and have moved the file to the generated name, next to the old one\<close>
  have h4: "resolve ?F ''/r/a.txt'' = Some (File ''new'')
      \<and> (atomic_file_transfer ?F ''/r/a.txt'' ''/r/d'' = Inr (successful_transfer, ?F')
           \<or> fallback_transfer ?F ''/r/a.txt'' ''/r/d'' = Inr (successful_transfer, ?F'))"
    using collision_probe(5) fb eq(2) by simp
  from T h4 obtain u where u: "get_unique_path ?F ''/r/d'' (filename ''/r/a.txt'') = Inr u"
    and lands: "resolve ?F' u = Some (File ''new'')" "resolve ?F' ''/r/a.txt'' = None"
    and frame: "\<forall>p y. resolve ?F p = Some (File y) \<and> components p \<noteq> components ''/r/a.txt''
      \<longrightarrow> resolve ?F' p = Some (File y)"
    by blast
  from u g collision_names(5) have "u = ''/r/d/a(2).txt''" by simp
  moreover have "components ''/r/d/a.txt'' \<noteq> components ''/r/a.txt''"
    by (simp add: path_eval)
  with frame have "resolve ?F' ''/r/d/a.txt'' = Some (File ''old'')"
    using collision_probe(6) by blast
  ultimately show ?thesis using g1 g fa fb eq lands by simp
qed

text \<open>
  An existence check that fails: a directory \<open>/d\<close> holding a file whose name has the
  greatest length the file system admits, 255 bytes.  The name exists, the candidate
  \<open>stem(1)ext\<close> is three bytes longer and names nothing, and the check of the candidate
  fails, which leaves \<open>get_unique_path\<close> as an exception.  And at the greatest value of
  the counter the loop does not return the candidate, free as it is: the counter is
  incremented before the candidate is tested.
\<close>

lemma long_name_facts:
  "length long_name = 255"
  "valid_name long_name"
  "stem long_name = replicate 251 (CHR ''a'')"
  "extension long_name = ''.txt''"
proof -
  show "length long_name = 255" by (simp add: long_name_def)
  show v: "valid_name long_name" by (auto simp: long_name_def valid_name_def is_sep_def)
  then have f: "filename long_name = long_name"
    using filename_append_plain [of long_name "[]"] by (simp add: valid_name_def filename_def)
  have fe: "find_extension (replicate 251 (CHR ''a'') @ CHR ''.'' # ''txt'') = Some 251"
    using find_extension_suffix [of "replicate 251 (CHR ''a'')" "''txt''"] by simp
  have ln: "long_name = replicate 251 (CHR ''a'') @ CHR ''.'' # ''txt''"
    by (simp add: long_name_def)
  show "stem long_name = replicate 251 (CHR ''a'')"
    unfolding stem_def f using fe by (simp add: ln)
  show "extension long_name = ''.txt''"
    unfolding extension_def f using fe by (simp add: ln)
qed

lemma long_name_probe:
  "fs_exists \<lparr>tree = long_name_tree, faults = name_limit\<rparr> (append_path ''/d'' long_name)
     = Inr True"
  "fs_exists \<lparr>tree = long_name_tree, faults = name_limit\<rparr>
     (append_path ''/d'' (numbered_name (stem long_name) (extension long_name) 1))
     = Inl ENAMETOOLONG"
  "resolve \<lparr>tree = long_name_tree, faults = name_limit\<rparr>
     (append_path ''/d'' (numbered_name (stem long_name) (extension long_name) 1)) = None"
  "resolve \<lparr>tree = long_name_tree, faults = name_limit\<rparr> (append_path ''/s'' long_name)
     = Some (File ''new'')"
  "filename (append_path ''/s'' long_name) = long_name"
proof -
  let ?F = "\<lparr>tree = long_name_tree, faults = name_limit\<rparr>"
  let ?n1 = "numbered_name (stem long_name) (extension long_name) 1"
  note v = long_name_facts(2)
  have cd: "components ''/d'' = [''d'']" "components ''/s'' = [''s'']"
    by (simp_all add: path_eval)
  have c0: "components (append_path ''/d'' long_name) = [''d'', long_name]"
    "components (append_path ''/s'' long_name) = [''s'', long_name]"
    using components_append_name [OF v] cd by simp_all
  have f0: "filename (append_path ''/d'' long_name) \<noteq> []"
    "filename (append_path ''/s'' long_name) \<noteq> []"
    using filename_append_name [OF v] v by (simp_all add: valid_name_def)
  show "filename (append_path ''/s'' long_name) = long_name"
    using filename_append_name [OF v] .
  have l1: "length ?n1 = 258"
    by (simp add: long_name_facts numbered_name_def to_string_def decimal.simps)
  then have ne: "long_name \<noteq> ?n1" using long_name_facts(1) by auto
  have c1: "components (append_path ''/d'' ?n1) = [''d'', ?n1]"
    using components_append_name [OF numbered_name_valid] cd by simp
  have f1: "filename (append_path ''/d'' ?n1) \<noteq> []"
    using filename_append_name [OF numbered_name_valid [where f = long_name and k = 1]]
      numbered_name_valid [where f = long_name and k = 1] by (simp add: valid_name_def)
  have "resolve ?F (append_path ''/d'' long_name) = Some (File ''old'')"
    by (simp add: resolve_plain [OF f0(1)] c0 long_name_tree_def)
  moreover have "name_limit (Op_status (append_path ''/d'' long_name)) = None"
    by (simp add: name_limit_def c0 long_name_facts(1))
  ultimately show "fs_exists ?F (append_path ''/d'' long_name) = Inr True"
    by (simp add: fs_exists_def fs_status_def)
  have "name_limit (Op_status (append_path ''/d'' ?n1)) = Some ENAMETOOLONG"
    by (simp add: name_limit_def c1 l1)
  then show "fs_exists ?F (append_path ''/d'' ?n1) = Inl ENAMETOOLONG"
    by (simp add: fs_exists_def fs_status_def)
  show "resolve ?F (append_path ''/d'' ?n1) = None"
    using ne by (simp add: resolve_plain [OF f1] c1 long_name_tree_def)
  show "resolve ?F (append_path ''/s'' long_name) = Some (File ''new'')"
    by (simp add: resolve_plain [OF f0(2)] c0 long_name_tree_def)
qed

theorem get_unique_path_throws_counterexample:
  "fs_exists \<lparr>tree = long_name_tree, faults = name_limit\<rparr> (append_path ''/d'' long_name)
     = Inr True
   \<and> resolve \<lparr>tree = long_name_tree, faults = name_limit\<rparr>
       (append_path ''/d'' (numbered_name (stem long_name) (extension long_name) 1)) = None
   \<and> get_unique_path \<lparr>tree = long_name_tree, faults = name_limit\<rparr> ''/d'' long_name
     = Inl (Uncaught ENAMETOOLONG)
   \<and> resolve \<lparr>tree = long_name_tree, faults = name_limit\<rparr> (append_path ''/s'' long_name)
     = Some (File ''new'')
   \<and> atomic_file_transfer \<lparr>tree = long_name_tree, faults = name_limit\<rparr>
       (append_path ''/s'' long_name) ''/d''
     = Inr (file_move_status.unknown_failure, \<lparr>tree = long_name_tree, faults = name_limit\<rparr>)
   \<and> fallback_transfer \<lparr>tree = long_name_tree, faults = name_limit\<rparr>
       (append_path ''/s'' long_name) ''/d''
     = Inr (file_move_status.unknown_failure, \<lparr>tree = long_name_tree, faults = name_limit\<rparr>)
   \<and> resolve \<lparr>tree = collision_tree, faults = no_faults\<rparr>
       (append_path ''/r/d'' (numbered_name (stem ''a.txt'') (extension ''a.txt'') INT_MAX)) = None
   \<and> unique_loop \<lparr>tree = collision_tree, faults = no_faults\<rparr> ''/r/d''
       (stem ''a.txt'') (extension ''a.txt'') INT_MAX = Inl Signed_overflow"
proof -
  let ?F = "\<lparr>tree = long_name_tree, faults = name_limit\<rparr>"
  let ?C = "\<lparr>tree = collision_tree, faults = no_faults\<rparr>"
  have "unique_loop ?F ''/d'' (stem long_name) (extension long_name) 1
      = Inl (Uncaught ENAMETOOLONG)"
    by (subst unique_loop.simps) (simp add: long_name_probe(2) INT_MAX_def)
  then have g: "get_unique_path ?F ''/d'' long_name = Inl (Uncaught ENAMETOOLONG)"
    by (simp add: get_unique_path_def long_name_probe(1))
  then have "atomic_file_transfer ?F (append_path ''/s'' long_name) ''/d''
      = Inr (file_move_status.unknown_failure, ?F)"
    "fallback_transfer ?F (append_path ''/s'' long_name) ''/d''
      = Inr (file_move_status.unknown_failure, ?F)"
    by (simp_all add: atomic_file_transfer_def fallback_transfer_def long_name_probe(5)
        atomic_handler_def fallback_handler_def)
  moreover have "unique_loop ?C ''/r/d'' (stem ''a.txt'') (extension ''a.txt'') INT_MAX
      = Inl Signed_overflow"
    by (subst unique_loop.simps) simp
  moreover have "resolve ?C
      (append_path ''/r/d'' (numbered_name (stem ''a.txt'') (extension ''a.txt'') INT_MAX)) = None"
    by (simp add: path_eval collision_tree_def)
  ultimately show ?thesis using g long_name_probe(1,3,4) by simp
qed

section \<open>Fallback transfer\<close>

text \<open>
  Claim C10.  Whenever \<open>fallback_transfer\<close> returns anything but \<open>successful_transfer\<close>,
  the source path resolves as before the call; and when a regular source file is gone
  after the call, the call has returned \<open>successful_transfer\<close> and a copy with the same
  bytes is at the unique destination.
\<close>

theorem fallback_transfer_source_safe:
  assumes "fallback_transfer fs src d = Inr (s, fs')"
  shows "(s \<noteq> successful_transfer \<longrightarrow> resolve fs' src = resolve fs src)
     \<and> (\<forall>x. resolve fs src = Some (File x) \<and> resolve fs' src \<noteq> Some (File x)
           \<longrightarrow> s = successful_transfer
               \<and> (\<exists>u. get_unique_path fs d (filename src) = Inr u
                      \<and> resolve fs' u = Some (File x)))"
proof -
  have keep: "resolve fs' src = resolve fs src" if ns: "s \<noteq> successful_transfer"
  proof (cases "get_unique_path fs d (filename src)")
    case (Inl a)
    with assms show ?thesis
      by (cases a) (auto simp: fallback_transfer_def)
  next
    case u: (Inr u)
    then have free: "resolve fs u = None" by (rule get_unique_path_free)
    show ?thesis
    proof (cases "fs_copy_file fs src u")
      case (Inl e)
      with assms u show ?thesis
        by (auto simp: fallback_transfer_def split: if_splits)
    next
      case (Inr fs1)
      with assms u ns have "fs' = fs1"
        by (auto simp: fallback_transfer_def split: sum.splits if_splits)
      moreover from copy_file_effect(1) [OF Inr free] obtain x
        where "resolve fs src = Some (File x)" by blast
      moreover from this have "resolve fs1 src = Some (File x)"
        by (rule copy_file_effect(3) [OF Inr free])
      ultimately show ?thesis by simp
    qed
  qed
  have gone: "s = successful_transfer \<and> (\<exists>u. get_unique_path fs d (filename src) = Inr u
                      \<and> resolve fs' u = Some (File x))"
    if x: "resolve fs src = Some (File x)" and g: "resolve fs' src \<noteq> Some (File x)" for x
  proof -
    from keep x g have s: "s = successful_transfer" by auto
    with assms x transfer_lands [of fs src x d fs'] show ?thesis by auto
  qed
  from keep gone show ?thesis by blast
qed

lemma copy_denied_run:
  "fallback_transfer \<lparr>tree = collision_tree, faults = copy_denied\<rparr> ''/r/a.txt'' ''/r/d''
     = Inr (file_move_status.permission_denied, \<lparr>tree = collision_tree, faults = copy_denied\<rparr>)"
  by (simp add: fallback_transfer_def get_unique_path_def unique_loop.simps fs_copy_file_def
      fallback_handler_def path_eval collision_tree_def copy_denied_def)

theorem fallback_transfer_source_safe_witness:
  "fallback_transfer \<lparr>tree = collision_tree, faults = copy_denied\<rparr> ''/r/a.txt'' ''/r/d''
     = Inr (file_move_status.permission_denied, \<lparr>tree = collision_tree, faults = copy_denied\<rparr>)
   \<and> file_move_status.permission_denied \<noteq> successful_transfer
   \<and> resolve \<lparr>tree = collision_tree, faults = copy_denied\<rparr> ''/r/a.txt'' = Some (File ''new'')"
  using fallback_transfer_source_safe [OF copy_denied_run] copy_denied_run
  by (simp add: path_eval collision_tree_def)

section \<open>Path validation\<close>

text \<open>
  Claim C7.  A missing path is \<open>not_found\<close>, a non-directory is \<open>not_directory\<close>, a
  directory that refuses access is \<open>permission_denied\<close>; but an enumeration that fails
  for another reason leaves \<open>accessible\<close> set, and the result is \<open>ok\<close>:
  \<open>unknown_path_error\<close> is never returned.
\<close>

theorem validate_path_other_failure_is_ok:
  "directory_iterator \<lparr>tree = io_error_tree, faults = no_faults\<rparr> ''/r'' = Inl EIO
   \<and> validate_path \<lparr>tree = io_error_tree, faults = no_faults\<rparr> ''/r'' = Inr path_status.ok
   \<and> (\<forall>fs root_path. validate_path fs root_path \<noteq> Inr unknown_path_error)"
proof (intro conjI allI)
  show "directory_iterator \<lparr>tree = io_error_tree, faults = no_faults\<rparr> ''/r'' = Inl EIO"
    by (simp add: directory_iterator_def path_eval io_error_tree_def)
  show "validate_path \<lparr>tree = io_error_tree, faults = no_faults\<rparr> ''/r'' = Inr path_status.ok"
    by (simp add: validate_path_def directory_iterator_def path_eval io_error_tree_def
        no_faults_def)
  fix fs root_path
  show "validate_path fs root_path \<noteq> Inr unknown_path_error"
    by (auto simp: validate_path_def Let_def split: sum.splits if_splits)
qed

section \<open>Placement of one file\<close>

lemmas handle_eval =
  handle_file_def classify_file_by_extension_def get_parent_folder_name_def lowercase_def
  tolower_def create_directory_def fs_create_directory_def atomic_file_transfer_def
  get_unique_path_def fs_rename_def atomic_outcome_def no_faults_def path_eval

lemma alias_inside_run:
  "organize_directory \<lparr>tree = alias_inside_tree, faults = no_faults\<rparr> ''/r'' atomic_transfer_mode
     = Some (Inr (success,
         \<lparr>files = \<lparr>tree = Dir None [(''r'', Dir None
              [(''Image Files'', Dir None
                 [(''Image Files'', Dir None []),
                  (''PDF Files'', Dir None [(''x.pdf'', File ''p'')])])])],
            faults = no_faults\<rparr>,
          directories = [], handled = [success]\<rparr>))"
proof -
  let ?A = "\<lparr>tree = alias_inside_tree, faults = no_faults\<rparr>"
  let ?A1 = "\<lparr>tree = Dir None [(''r'', Dir None
              [(''Image Files'', Dir None
                 [(''Image Files'', Dir None [(''x.pdf'', File ''p'')])])])],
            faults = no_faults\<rparr>"
  let ?A2 = "\<lparr>tree = Dir None [(''r'', Dir None
              [(''Image Files'', Dir None
                 [(''Image Files'', Dir None []),
                  (''PDF Files'', Dir None [(''x.pdf'', File ''p'')])])])],
            faults = no_faults\<rparr>"
  have v: "process_path_validation ?A ''/r'' = Inr success"
    by (simp add: process_path_validation_def validate_path_def directory_iterator_def
        path_eval alias_inside_tree_def no_faults_def)
  text \<open>the root: one canonical folder, nothing to rename\<close>
  have d0: "directory_iterator ?A ''/r'' = Inr [''/r/Image Files'']"
    by (simp add: directory_iterator_def path_eval alias_inside_tree_def)
  have t0: "entry_is_directory ?A ''/r/Image Files''"
    "fs_is_directory ?A ''/r/Image Files'' = Inr True"
    "fs_is_regular_file ?A ''/r/Image Files'' = Inr False"
    by (simp_all add: path_eval alias_inside_tree_def no_faults_def)
  have f0: "filename ''/r/Image Files'' = ''Image Files''"
    by (simp add: path_eval)
  have n0: "normalize_category_folder ?A ''/r'' = Inr ?A"
    by (simp add: normalize_category_folder_def d0 scan_entry_def std_map_items_def t0 f0
        canonical_samples)
  text \<open>inside it, the alias folder is renamed to the canonical name\<close>
  have d1: "directory_iterator ?A ''/r/Image Files'' = Inr [''/r/Image Files/photos'']"
    by (simp add: directory_iterator_def path_eval alias_inside_tree_def)
  have t1: "entry_is_directory ?A ''/r/Image Files/photos''"
    by (simp add: path_eval alias_inside_tree_def)
  have f1: "filename ''/r/Image Files/photos'' = ''photos''"
    "lowercase ''photos'' = ''photos''"
    "append_path (parent_path ''/r/Image Files/photos'') ''Image Files''
       = ''/r/Image Files/Image Files''"
    by (simp_all add: path_eval lowercase_def tolower_def)
  have r1: "fs_rename ?A ''/r/Image Files/photos'' ''/r/Image Files/Image Files'' = Inr ?A1"
    by (simp add: fs_rename_def path_eval alias_inside_tree_def no_faults_def)
  have n1: "normalize_category_folder ?A ''/r/Image Files'' = Inr ?A1"
    by (simp add: normalize_category_folder_def d1 scan_entry_def std_map_items_def t1 f1
        canonical_samples_lower alias_photos rename_entry_def r1 Let_def)
  have d1': "directory_iterator ?A1 ''/r/Image Files'' = Inr [''/r/Image Files/Image Files'']"
    by (simp add: directory_iterator_def path_eval)
  have t1': "fs_is_directory ?A1 ''/r/Image Files/Image Files'' = Inr True"
    "fs_is_regular_file ?A1 ''/r/Image Files/Image Files'' = Inr False"
    "filename ''/r/Image Files/Image Files'' = ''Image Files''"
    by (simp_all add: path_eval no_faults_def)
  text \<open>inside that one, the file is moved to a new category folder beside it\<close>
  have d2: "directory_iterator ?A1 ''/r/Image Files/Image Files''
      = Inr [''/r/Image Files/Image Files/x.pdf'']"
    by (simp add: directory_iterator_def path_eval)
  have t2: "\<not> entry_is_directory ?A1 ''/r/Image Files/Image Files/x.pdf''"
    "fs_is_regular_file ?A1 ''/r/Image Files/Image Files/x.pdf'' = Inr True"
    by (simp_all add: path_eval no_faults_def)
  have n2: "normalize_category_folder ?A1 ''/r/Image Files/Image Files'' = Inr ?A1"
    by (simp add: normalize_category_folder_def d2 scan_entry_def std_map_items_def t2)
  have h2: "handle_file ?A1 ''/r/Image Files/Image Files'' ''/r/Image Files/Image Files/x.pdf''
        atomic_transfer_mode = Inr (success, ?A2)"
    by (simp add: handle_eval extension_pdf canonical_samples alias_capitalised
        unique_loop.simps)
  have l3: "organize_loop atomic_transfer_mode
        \<lparr>files = ?A2, directories = [], handled = [success]\<rparr>
      = Some (Inr (success, \<lparr>files = ?A2, directories = [], handled = [success]\<rparr>))"
    by (subst organize_loop.simps) simp
  have l2: "organize_loop atomic_transfer_mode
        \<lparr>files = ?A1, directories = [''/r/Image Files/Image Files''], handled = []\<rparr>
      = Some (Inr (success, \<lparr>files = ?A2, directories = [], handled = [success]\<rparr>))"
    by (subst organize_loop.simps) (simp add: n2 d2 t2 h2 l3 Let_def)
  have l1: "organize_loop atomic_transfer_mode
        \<lparr>files = ?A, directories = [''/r/Image Files''], handled = []\<rparr>
      = Some (Inr (success, \<lparr>files = ?A2, directories = [], handled = [success]\<rparr>))"
    by (subst organize_loop.simps) (simp add: n1 d1' t1' l2 Let_def)
  have l0: "organize_loop atomic_transfer_mode
        \<lparr>files = ?A, directories = [''/r''], handled = []\<rparr>
      = Some (Inr (success, \<lparr>files = ?A2, directories = [], handled = [success]\<rparr>))"
    by (subst organize_loop.simps) (simp add: n0 d0 t0 f0 l1 Let_def)
  with v show ?thesis by (simp add: organize_directory_def)
qed

text \<open>
  Claim C3.  A file in a folder named for another category, canonically or by an
  alias, is moved to \<open>base / category\<close>, where \<open>base\<close> is the parent of that folder.
  Nothing is asked about \<open>base\<close> itself: a PDF in \<open>/r/Image Files/photos\<close> is moved to
  \<open>/r/Image Files/PDF Files\<close>, a canonical category folder which \<open>handle_file\<close> creates
  inside the canonical category folder \<open>Image Files\<close>; a whole run on that tree ends
  with \<open>Image Files\<close> and \<open>PDF Files\<close> inside \<open>Image Files\<close>.  And the alias is looked up
  as the folder name is spelled: a PDF in a folder \<open>Pics\<close> is not moved up, but into a
  new \<open>Pics/PDF Files\<close>.
\<close>

theorem handle_file_nests_category_folders:
  "classify_file_by_extension ''/r/Image Files/photos/x.pdf'' = ''PDF Files''
   \<and> ALIAS_LOOKUP (get_parent_folder_name ''/r/Image Files/photos'') = Some ''Image Files''
   \<and> ''Image Files'' \<in> CANONICAL_NAMES \<and> ''PDF Files'' \<in> CANONICAL_NAMES
   \<and> handle_file \<lparr>tree = alias_inside_tree, faults = no_faults\<rparr>
         ''/r/Image Files/photos'' ''/r/Image Files/photos/x.pdf'' atomic_transfer_mode
       = Inr (success,
           \<lparr>tree = Dir None [(''r'', Dir None
              [(''Image Files'', Dir None
                 [(''photos'', Dir None []),
                  (''PDF Files'', Dir None [(''x.pdf'', File ''p'')])])])],
            faults = no_faults\<rparr>)
   \<and> organize_directory \<lparr>tree = alias_inside_tree, faults = no_faults\<rparr> ''/r''
         atomic_transfer_mode
       = Some (Inr (success,
           \<lparr>files = \<lparr>tree = Dir None [(''r'', Dir None
                [(''Image Files'', Dir None
                   [(''Image Files'', Dir None []),
                    (''PDF Files'', Dir None [(''x.pdf'', File ''p'')])])])],
              faults = no_faults\<rparr>,
            directories = [], handled = [success]\<rparr>))
   \<and> classify_file_by_extension ''/r/Pics/notes.pdf'' = ''PDF Files''
   \<and> ALIAS_LOOKUP (lowercase (get_parent_folder_name ''/r/Pics'')) = Some ''Image Files''
   \<and> handle_file \<lparr>tree = alias_upper_tree, faults = no_faults\<rparr> ''/r/Pics'' ''/r/Pics/notes.pdf''
         atomic_transfer_mode
       = Inr (success,
           \<lparr>tree = Dir None [(''r'', Dir None
              [(''Pics'', Dir None [(''PDF Files'', Dir None [(''notes.pdf'', File ''n'')])])])],
            faults = no_faults\<rparr>)"
proof -
  have "handle_file \<lparr>tree = alias_inside_tree, faults = no_faults\<rparr>
         ''/r/Image Files/photos'' ''/r/Image Files/photos/x.pdf'' atomic_transfer_mode
       = Inr (success,
           \<lparr>tree = Dir None [(''r'', Dir None
              [(''Image Files'', Dir None
                 [(''photos'', Dir None []),
                  (''PDF Files'', Dir None [(''x.pdf'', File ''p'')])])])],
            faults = no_faults\<rparr>)"
    by (simp add: handle_eval alias_inside_tree_def extension_pdf canonical_samples
        canonical_samples_lower alias_photos unique_loop.simps)
  moreover have "handle_file \<lparr>tree = alias_upper_tree, faults = no_faults\<rparr> ''/r/Pics''
         ''/r/Pics/notes.pdf'' atomic_transfer_mode
       = Inr (success,
           \<lparr>tree = Dir None [(''r'', Dir None
              [(''Pics'', Dir None [(''PDF Files'', Dir None [(''notes.pdf'', File ''n'')])])])],
            faults = no_faults\<rparr>)"
    by (simp add: handle_eval alias_upper_tree_def extension_pdf canonical_samples
        alias_Pics unique_loop.simps)
  moreover have "classify_file_by_extension ''/r/Image Files/photos/x.pdf'' = ''PDF Files''"
    "classify_file_by_extension ''/r/Pics/notes.pdf'' = ''PDF Files''"
    by (simp_all add: classify_file_by_extension_def lowercase_def tolower_def path_eval
        extension_pdf)
  moreover have "ALIAS_LOOKUP (get_parent_folder_name ''/r/Image Files/photos'')
      = Some ''Image Files''"
    "ALIAS_LOOKUP (lowercase (get_parent_folder_name ''/r/Pics'')) = Some ''Image Files''"
    by (simp_all add: get_parent_folder_name_def lowercase_def tolower_def path_eval
        alias_photos alias_pics)
  ultimately show ?thesis using alias_inside_run canonical_samples(3,5) by simp
qed

text \<open>
  Claim C6.  A file whose folder name is an alias of the file's category once
  lower-cased is to be left where it is.  \<open>handle_file\<close> looks the folder name up as it
  is spelled: in a folder \<open>Pics\<close> an image is not recognised as placed, and is moved
  into a new \<open>Pics/Image Files\<close>.
\<close>

theorem handle_file_alias_lookup_case_sensitive:
  "classify_file_by_extension ''/r/Pics/a.png'' = ''Image Files''
   \<and> ALIAS_LOOKUP (lowercase (get_parent_folder_name ''/r/Pics'')) = Some ''Image Files''
   \<and> handle_file \<lparr>tree = alias_case_tree, faults = no_faults\<rparr> ''/r/Pics'' ''/r/Pics/a.png''
         atomic_transfer_mode
       = Inr (success,
           \<lparr>tree = Dir None [(''r'', Dir None
              [(''Pics'', Dir None [(''Image Files'', Dir None [(''a.png'', File ''x'')])])])],
            faults = no_faults\<rparr>)"
  by (simp add: handle_eval alias_case_tree_def extension_png canonical_samples
      alias_Pics alias_pics unique_loop.simps)

section \<open>The walk\<close>

text \<open>
  Claim C9.  A failed rename is swallowed, but the enumeration of the level is not
  guarded: when the directory cannot be opened, the \<open>filesystem_error\<close> leaves
  \<open>normalize_category_folder\<close> and ends the whole run.  Only the root is validated, so a
  sub-directory that refuses access is enough.
\<close>

theorem normalize_enumeration_error_escapes:
  "normalize_category_folder \<lparr>tree = unreadable_tree, faults = no_faults\<rparr> ''/r/private''
     = Inl (Uncaught EACCES)
   \<and> process_path_validation \<lparr>tree = unreadable_tree, faults = no_faults\<rparr> ''/r'' = Inr success
   \<and> organize_directory \<lparr>tree = unreadable_tree, faults = no_faults\<rparr> ''/r''
         atomic_transfer_mode = Some (Inl (Uncaught EACCES))"
proof -
  let ?F = "\<lparr>tree = unreadable_tree, faults = no_faults\<rparr>"
  have n: "normalize_category_folder ?F ''/r/private'' = Inl (Uncaught EACCES)"
    by (simp add: normalize_category_folder_def directory_iterator_def path_eval
        unreadable_tree_def)
  have v: "process_path_validation ?F ''/r'' = Inr success"
    by (simp add: process_path_validation_def validate_path_def directory_iterator_def
        path_eval unreadable_tree_def no_faults_def)
  have d: "directory_iterator ?F ''/r'' = Inr [''/r/private'']"
    by (simp add: directory_iterator_def path_eval unreadable_tree_def)
  have t: "entry_is_directory ?F ''/r/private''"
    "fs_is_directory ?F ''/r/private'' = Inr True"
    "fs_is_regular_file ?F ''/r/private'' = Inr False"
    by (simp_all add: path_eval unreadable_tree_def no_faults_def)
  have f: "filename ''/r/private'' = ''private''"
    by (simp add: path_eval)
  have n0: "normalize_category_folder ?F ''/r'' = Inr ?F"
    by (simp add: normalize_category_folder_def d scan_entry_def std_map_items_def t f
        canonical_samples alias_private lowercase_def tolower_def)
  have "organize_loop atomic_transfer_mode
        \<lparr>files = ?F, directories = [''/r/private''], handled = []\<rparr>
      = Some (Inl (Uncaught EACCES))"
    by (subst organize_loop.simps) (simp add: n)
  then have "organize_loop atomic_transfer_mode \<lparr>files = ?F, directories = [''/r''], handled = []\<rparr>
      = Some (Inl (Uncaught EACCES))"
    by (subst organize_loop.simps) (simp add: n0 d t f Let_def)
  with n v show ?thesis by (simp add: organize_directory_def)
qed

section \<open>Normalising one level\<close>















text \<open>
  The entries the second loop renames, seen from one alias-named sub-folder \<open>kids ! j\<close>
  of the level, of category \<open>c\<close>.
\<close>




end
